theory Spec2Isabelle
  imports Complex_Main
begin

section \<open>The graph model\<close>

text \<open>
  Modelled from the spec: the entities of the package \<open>atlas_sdk\<close> (enumerations
  \<open>NodeType\<close> and \<open>EdgeType\<close>, the classes \<open>Node\<close>, \<open>Edge\<close>, \<open>CICDGraph\<close>,
  \<open>CrossProjectEdge\<close>, \<open>MultiProjectGraph\<close>, \<open>Finding\<close>, \<open>RefactorSuggestion\<close>,
  \<open>RefactorPlan\<close>, \<open>SimulationResult\<close>) are imported by every module of
  \<open>atlas_graph\<close> but declared outside it. They are given here as the data model of the
  specification describes them. The functions that work on them
  (\<open>GraphBuilder\<close>, \<open>GraphDiffer\<close>, \<open>CrossProjectLinker\<close>, \<open>DiffSimulator\<close>) are
  translated from the source.
\<close>

datatype NodeType =
  PIPELINE | JOB | STAGE | STEP | REPOSITORY | ARTIFACT | CONTAINER_IMAGE | RUNNER
  | SECRET_REF | ENVIRONMENT | EXTERNAL_SERVICE | DOC_FILE

datatype EdgeType = CALLS | PRODUCES | CONSUMES | TRIGGERS

text \<open>
  Modelled from the spec: the text of an enumeration member, as \<open>str(node.node_type)\<close> and
  the format string \<open>f"{node.node_type}:{node.name}"\<close> produce it. The members are string
  valued; the specification names them in lower case.
\<close>

fun node_type_str :: "NodeType \<Rightarrow> string" where
  "node_type_str PIPELINE = ''pipeline''"
| "node_type_str JOB = ''job''"
| "node_type_str STAGE = ''stage''"
| "node_type_str STEP = ''step''"
| "node_type_str REPOSITORY = ''repository''"
| "node_type_str ARTIFACT = ''artifact''"
| "node_type_str CONTAINER_IMAGE = ''container_image''"
| "node_type_str RUNNER = ''runner''"
| "node_type_str SECRET_REF = ''secret_ref''"
| "node_type_str ENVIRONMENT = ''environment''"
| "node_type_str EXTERNAL_SERVICE = ''external_service''"
| "node_type_str DOC_FILE = ''doc_file''"

fun edge_type_str :: "EdgeType \<Rightarrow> string" where
  "edge_type_str CALLS = ''calls''"
| "edge_type_str PRODUCES = ''produces''"
| "edge_type_str CONSUMES = ''consumes''"
| "edge_type_str TRIGGERS = ''triggers''"

text \<open>
  A metadata value (\<open>Any\<close> in the source). The simulator stores the boolean \<open>True\<close> and a
  rule identifier (a string); the tests store integers.
\<close>

datatype mval = VNone | VBool bool | VInt int | VStr string | VList "mval list"

subsection \<open>Python dictionaries\<close>

text \<open>
  A \<open>dict\<close> is an association list in insertion order with pairwise distinct keys:
  \<open>d[k] = v\<close> replaces the value of a key that is present, at its place, and appends a new
  key at the end; \<open>k in d\<close> looks the key up.
\<close>

fun dict_set :: "('k \<times> 'v) list \<Rightarrow> 'k \<Rightarrow> 'v \<Rightarrow> ('k \<times> 'v) list" where
  "dict_set [] k v = [(k, v)]"
| "dict_set ((k', v') # d) k v =
     (if k' = k then (k', v) # d else (k', v') # dict_set d k v)"

definition dict_contains :: "('k \<times> 'v) list \<Rightarrow> 'k \<Rightarrow> bool" where
  "dict_contains d k = (map_of d k \<noteq> None)"

definition dict_keys :: "('k \<times> 'v) list \<Rightarrow> 'k list" where
  "dict_keys d = map fst d"

text \<open>
  Equality of two dictionaries (\<open>==\<close> on \<open>dict\<close>): the same keys with equal values, whatever
  the insertion order.
\<close>

definition dict_eq :: "('k \<times> 'v) list \<Rightarrow> ('k \<times> 'v) list \<Rightarrow> bool" where
  "dict_eq d e =
     (list_all (\<lambda>k. map_of d k = map_of e k) (dict_keys d) \<and>
      list_all (\<lambda>k. map_of d k = map_of e k) (dict_keys e))"

type_synonym metadata = "(string \<times> mval) list"

subsection \<open>Nodes, edges and graphs\<close>

record Node =
  node_id :: string
  node_type :: NodeType
  node_name :: string
  metadata :: metadata

record Edge =
  edge_id :: string
  edge_type :: EdgeType
  source_node_id :: string
  target_node_id :: string

record CICDGraph =
  graph_id :: string
  graph_name :: string
  platform :: "string option"
  nodes :: "Node list"
  edges :: "Edge list"

text \<open>
  Modelled from the spec: \<open>CICDGraph.add_node\<close> and \<open>CICDGraph.add_edge\<close> append to the
  ordered collections of the graph, and \<open>CICDGraph.get_node\<close> is the lookup of a node by
  its id (\<open>None\<close> when no node has it).
\<close>

definition add_node :: "CICDGraph \<Rightarrow> Node \<Rightarrow> CICDGraph" where
  "add_node g n = g\<lparr>nodes := nodes g @ [n]\<rparr>"

definition add_edge :: "CICDGraph \<Rightarrow> Edge \<Rightarrow> CICDGraph" where
  "add_edge g e = g\<lparr>edges := edges g @ [e]\<rparr>"

definition get_node :: "CICDGraph \<Rightarrow> string \<Rightarrow> Node option" where
  "get_node g i = find (\<lambda>n. node_id n = i) (nodes g)"

text \<open>The matching key of the differ and of the specification: \<open>(node_type, name)\<close>.\<close>

definition node_key :: "Node \<Rightarrow> NodeType \<times> string" where
  "node_key n = (node_type n, node_name n)"

section \<open>GraphBuilder (builder.py)\<close>

text \<open>
  The builder owns the graph under construction and the index \<open>_node_index\<close>, a dictionary
  from the text \<open>"type:name"\<close> to a node id. The graph's own id is generated when the
  builder is created; it is an argument here.
\<close>

record GraphBuilder =
  graph :: CICDGraph
  node_index :: "(string \<times> string) list"

definition init_builder :: "string \<Rightarrow> string \<Rightarrow> string option \<Rightarrow> GraphBuilder" where
  "init_builder gid name pf =
     \<lparr>graph = \<lparr>graph_id = gid, graph_name = name, platform = pf, nodes = [], edges = []\<rparr>,
      node_index = []\<rparr>"

text \<open>\<open>key = f"{node.node_type}:{node.name}"\<close>\<close>

definition builder_key :: "Node \<Rightarrow> string" where
  "builder_key node = node_type_str (node_type node) @ '':'' @ node_name node"

fun add_nodes :: "GraphBuilder \<Rightarrow> Node list \<Rightarrow> GraphBuilder" where
  "add_nodes b [] = b"
| "add_nodes b (node # rest) =
     (let key = builder_key node in
      if \<not> dict_contains (node_index b) key
      then add_nodes
             (b\<lparr>graph := add_node (graph b) node,
                node_index := dict_set (node_index b) key (node_id node)\<rparr>) rest
      else add_nodes b rest)"

text \<open>
  \<open>add_edges\<close> computes \<open>valid_ids\<close> once, from the nodes the graph holds when it is
  called, and then walks the edges. A rejected edge is only logged.
\<close>

fun add_edges_loop :: "string set \<Rightarrow> GraphBuilder \<Rightarrow> Edge list \<Rightarrow> GraphBuilder" where
  "add_edges_loop valid_ids b [] = b"
| "add_edges_loop valid_ids b (edge # rest) =
     (if source_node_id edge \<in> valid_ids \<and> target_node_id edge \<in> valid_ids
      then add_edges_loop valid_ids (b\<lparr>graph := add_edge (graph b) edge\<rparr>) rest
      else add_edges_loop valid_ids b rest)"

definition add_edges :: "GraphBuilder \<Rightarrow> Edge list \<Rightarrow> GraphBuilder" where
  "add_edges b es = add_edges_loop (set (map node_id (nodes (graph b)))) b es"

definition build :: "GraphBuilder \<Rightarrow> CICDGraph" where
  "build b = graph b"

definition from_parse_result ::
  "string \<Rightarrow> string \<Rightarrow> Node list \<Rightarrow> Edge list \<Rightarrow> string option \<Rightarrow> CICDGraph" where
  "from_parse_result gid name ns es pf =
     build (add_edges (add_nodes (init_builder gid name pf) ns) es)"

text \<open>A caller's use of one builder: any sequence of the two mutating calls.\<close>

datatype builder_call = AddNodes "Node list" | AddEdges "Edge list"

fun do_call :: "GraphBuilder \<Rightarrow> builder_call \<Rightarrow> GraphBuilder" where
  "do_call b (AddNodes ns) = add_nodes b ns"
| "do_call b (AddEdges es) = add_edges b es"

definition run_calls :: "GraphBuilder \<Rightarrow> builder_call list \<Rightarrow> GraphBuilder" where
  "run_calls b cs = foldl do_call b cs"

section \<open>GraphDiffer (differ.py)\<close>

record NodeChange =
  nc_change_type :: string
  nc_node_name :: string
  nc_node_type :: string
  nc_details :: string

record EdgeChange =
  ec_change_type :: string
  ec_edge_type :: string
  ec_source :: string
  ec_target :: string

text \<open>
  The field \<open>id\<close> of a \<open>GraphDiff\<close> is a fresh UUID; \<open>diff\<close> takes it as an argument.
  The graphs \<open>before\<close> and \<open>after\<close> of the source are \<open>before_g\<close> and \<open>after_g\<close>.
\<close>

record GraphDiff =
  diff_id :: string
  before_graph_id :: string
  after_graph_id :: string
  before_name :: string
  after_name :: string
  node_changes :: "NodeChange list"
  edge_changes :: "EdgeChange list"

definition total_changes :: "GraphDiff \<Rightarrow> nat" where
  "total_changes d = length (node_changes d) + length (edge_changes d)"

definition added_nodes :: "GraphDiff \<Rightarrow> nat" where
  "added_nodes d = length (filter (\<lambda>c. nc_change_type c = ''added'') (node_changes d))"

definition removed_nodes :: "GraphDiff \<Rightarrow> nat" where
  "removed_nodes d = length (filter (\<lambda>c. nc_change_type c = ''removed'') (node_changes d))"

definition has_changes :: "GraphDiff \<Rightarrow> bool" where
  "has_changes d = (total_changes d > 0)"

text \<open>
  \<open>{(n.node_type, n.name): n for n in graph.nodes}\<close>: a key keeps the place of its first
  node and the value of its last.
\<close>

type_synonym node_dict = "((NodeType \<times> string) \<times> Node) list"

definition index_nodes :: "Node list \<Rightarrow> node_dict" where
  "index_nodes ns = foldl (\<lambda>d n. dict_set d (node_type n, node_name n) n) [] ns"

text \<open>\<open>NodeChange(change_type=..., node_name=node.name, node_type=str(node.node_type), ...)\<close>\<close>

definition node_change :: "string \<Rightarrow> Node \<Rightarrow> string \<Rightarrow> NodeChange" where
  "node_change ct node det =
     \<lparr>nc_change_type = ct, nc_node_name = node_name node,
      nc_node_type = node_type_str (node_type node), nc_details = det\<rparr>"

text \<open>The first loop: \<open>for key, node in after_nodes.items()\<close>.\<close>

fun added_pass :: "node_dict \<Rightarrow> node_dict \<Rightarrow> NodeChange list \<Rightarrow> NodeChange list" where
  "added_pass before_nodes [] changes = changes"
| "added_pass before_nodes ((key, node) # items) changes =
     (if \<not> dict_contains before_nodes key
      then added_pass before_nodes items
             (changes @ [node_change ''added'' node []])
      else added_pass before_nodes items changes)"

text \<open>The second loop: \<open>for key, node in before_nodes.items()\<close>.\<close>

fun removed_pass :: "node_dict \<Rightarrow> node_dict \<Rightarrow> NodeChange list \<Rightarrow> NodeChange list" where
  "removed_pass after_nodes [] changes = changes"
| "removed_pass after_nodes ((key, node) # items) changes =
     (if \<not> dict_contains after_nodes key
      then removed_pass after_nodes items
             (changes @ [node_change ''removed'' node []])
      else removed_pass after_nodes items changes)"

text \<open>
  The third loop: \<open>for key in before_nodes\<close>, with \<open>b = before_nodes[key]\<close> the value of
  the item at hand and \<open>a = after_nodes[key]\<close> read when the key is in \<open>after_nodes\<close>.
\<close>

fun modified_pass :: "node_dict \<Rightarrow> node_dict \<Rightarrow> NodeChange list \<Rightarrow> NodeChange list" where
  "modified_pass after_nodes [] changes = changes"
| "modified_pass after_nodes ((key, b) # items) changes =
     (case map_of after_nodes key of
        None \<Rightarrow> modified_pass after_nodes items changes
      | Some a \<Rightarrow>
          if \<not> dict_eq (metadata b) (metadata a)
          then modified_pass after_nodes items
                 (changes @ [node_change ''modified'' a ''metadata changed''])
          else modified_pass after_nodes items changes)"

text \<open>
  The edge sets hold the triples \<open>(edge_type, source_node_id, target_node_id)\<close>. Python
  walks a set in an order of its own; the model walks the triples of a difference in the
  order of their first edge, so only the members and the number of the edge changes are
  meaningful, not their order.
\<close>

definition edge_key :: "Edge \<Rightarrow> EdgeType \<times> string \<times> string" where
  "edge_key e = (edge_type e, source_node_id e, target_node_id e)"

definition edge_set_diff :: "Edge list \<Rightarrow> Edge list \<Rightarrow> (EdgeType \<times> string \<times> string) list" where
  "edge_set_diff xs ys =
     filter (\<lambda>k. k \<notin> set (map edge_key ys)) (remdups (map edge_key xs))"

definition edge_change :: "string \<Rightarrow> EdgeType \<times> string \<times> string \<Rightarrow> EdgeChange" where
  "edge_change ct k =
     (case k of (t, src, tgt) \<Rightarrow>
        \<lparr>ec_change_type = ct, ec_edge_type = edge_type_str t,
         ec_source = take 8 src, ec_target = take 8 tgt\<rparr>)"

definition diff :: "string \<Rightarrow> CICDGraph \<Rightarrow> CICDGraph \<Rightarrow> GraphDiff" where
  "diff fresh_id before_g after_g =
     (let before_nodes = index_nodes (nodes before_g);
          after_nodes = index_nodes (nodes after_g);
          changes1 = added_pass before_nodes after_nodes [];
          changes2 = removed_pass after_nodes before_nodes changes1;
          changes3 = modified_pass after_nodes before_nodes changes2;
          echanges1 = map (edge_change ''added'') (edge_set_diff (edges after_g) (edges before_g));
          echanges2 = echanges1 @
            map (edge_change ''removed'') (edge_set_diff (edges before_g) (edges after_g))
      in \<lparr>diff_id = fresh_id, before_graph_id = graph_id before_g,
          after_graph_id = graph_id after_g, before_name = graph_name before_g,
          after_name = graph_name after_g, node_changes = changes3,
          edge_changes = echanges2\<rparr>)"





section \<open>CrossProjectLinker (cross_project.py)\<close>

text \<open>
  Modelled from the spec: a \<open>CrossProjectEdge\<close> (its own generated id is left out) and a
  \<open>MultiProjectGraph\<close>, whose \<open>add_graph\<close> and \<open>add_cross_edge\<close> append to its two
  lists. The confidence of an edge is 1.0 unless the linker gives another.
\<close>

record CrossProjectEdge =
  source_graph_id :: string
  cpe_source_node_id :: string
  target_graph_id :: string
  cpe_target_node_id :: string
  link_type :: string
  confidence :: rat

record MultiProjectGraph =
  multi_name :: string
  graphs :: "CICDGraph list"
  cross_edges :: "CrossProjectEdge list"

definition add_graph :: "MultiProjectGraph \<Rightarrow> CICDGraph \<Rightarrow> MultiProjectGraph" where
  "add_graph m g = m\<lparr>graphs := graphs m @ [g]\<rparr>"

definition add_cross_edge :: "MultiProjectGraph \<Rightarrow> CrossProjectEdge \<Rightarrow> MultiProjectGraph" where
  "add_cross_edge m e = m\<lparr>cross_edges := cross_edges m @ [e]\<rparr>"

definition LINKABLE_TYPES :: "NodeType set" where
  "LINKABLE_TYPES = {ARTIFACT, CONTAINER_IMAGE, SECRET_REF, ENVIRONMENT, EXTERNAL_SERVICE}"

definition TRIGGER_EDGE_TYPES :: "EdgeType set" where
  "TRIGGER_EDGE_TYPES = {TRIGGERS}"

subsection \<open>Name normalization\<close>

text \<open>
  Strings are lists of bytes here, so \<open>str.lower\<close> and \<open>str.strip\<close> are modelled on ASCII:
  \<open>lower\<close> maps \<open>A\<close>..\<open>Z\<close> to \<open>a\<close>..\<open>z\<close>, and \<open>strip\<close> removes the characters
  for which \<open>str.isspace\<close> holds (codes 9 to 13 and 28 to 32) from both ends.
\<close>

definition lower_char :: "char \<Rightarrow> char" where
  "lower_char c =
     (let n = (of_char c :: nat) in if 65 \<le> n \<and> n \<le> 90 then char_of (n + 32) else c)"

definition lower :: "string \<Rightarrow> string" where
  "lower s = map lower_char s"

definition is_space :: "char \<Rightarrow> bool" where
  "is_space c = (let n = (of_char c :: nat) in (9 \<le> n \<and> n \<le> 13) \<or> (28 \<le> n \<and> n \<le> 32))"

definition strip :: "string \<Rightarrow> string" where
  "strip s = rev (dropWhile is_space (rev (dropWhile is_space s)))"

definition startswith :: "string \<Rightarrow> string \<Rightarrow> bool" where
  "startswith s p = (take (length p) s = p)"

text \<open>
  The loop \<open>for prefix in ("secret:", "env:", "image:")\<close>: every prefix is tried in turn,
  on the name as the earlier prefixes have left it.
\<close>

fun strip_prefixes :: "string \<Rightarrow> string list \<Rightarrow> string" where
  "strip_prefixes name [] = name"
| "strip_prefixes name (prefix # rest) =
     (if startswith name prefix
      then strip_prefixes (drop (length prefix) name) rest
      else strip_prefixes name rest)"

definition normalize_name :: "string \<Rightarrow> string" where
  "normalize_name name =
     strip (strip_prefixes (strip (lower name)) [''secret:'', ''env:'', ''image:''])"




subsection \<open>Shared resources\<close>

text \<open>
  \<open>node_index\<close> is a \<open>defaultdict(list)\<close> from \<open>(str(node_type), normalized name)\<close> to the
  list of \<open>(graph_id, node_id)\<close> places, in the order they are met.
\<close>

type_synonym location_index = "((string \<times> string) \<times> (string \<times> string) list) list"

definition dict_append :: "('k \<times> 'v list) list \<Rightarrow> 'k \<Rightarrow> 'v \<Rightarrow> ('k \<times> 'v list) list" where
  "dict_append d k v =
     (case map_of d k of None \<Rightarrow> dict_set d k [v] | Some vs \<Rightarrow> dict_set d k (vs @ [v]))"

fun index_graph_nodes :: "string \<Rightarrow> Node list \<Rightarrow> location_index \<Rightarrow> location_index" where
  "index_graph_nodes gid [] idx = idx"
| "index_graph_nodes gid (node # rest) idx =
     (if node_type node \<in> LINKABLE_TYPES
      then index_graph_nodes gid rest
             (dict_append idx (node_type_str (node_type node), normalize_name (node_name node))
                (gid, node_id node))
      else index_graph_nodes gid rest idx)"

fun index_graphs :: "CICDGraph list \<Rightarrow> location_index \<Rightarrow> location_index" where
  "index_graphs [] idx = idx"
| "index_graphs (g # gs) idx = index_graphs gs (index_graph_nodes (graph_id g) (nodes g) idx)"

definition link_type_for :: "string \<Rightarrow> string" where
  "link_type_for nt =
     (case map_of
        [(node_type_str ARTIFACT, ''shared_artifact''),
         (node_type_str CONTAINER_IMAGE, ''shared_image''),
         (node_type_str SECRET_REF, ''shared_secret''),
         (node_type_str ENVIRONMENT, ''shared_env''),
         (node_type_str EXTERNAL_SERVICE, ''shared_service'')] nt of
        Some l \<Rightarrow> l
      | None \<Rightarrow> ''shared_resource'')"

text \<open>The inner loop \<open>for target_graph_id, target_node_id in locations[1:]\<close>.\<close>

fun link_targets ::
  "string \<times> string \<Rightarrow> string \<Rightarrow> (string \<times> string) list \<Rightarrow> MultiProjectGraph
   \<Rightarrow> MultiProjectGraph" where
  "link_targets src lt [] multi = multi"
| "link_targets src lt (tgt # rest) multi =
     (if fst src = fst tgt then link_targets src lt rest multi
      else link_targets src lt rest
             (add_cross_edge multi
                \<lparr>source_graph_id = fst src, cpe_source_node_id = snd src,
                 target_graph_id = fst tgt, cpe_target_node_id = snd tgt,
                 link_type = lt, confidence = 1\<rparr>))"

text \<open>
  The loop over \<open>node_index.items()\<close>. An entry of the index never has an empty list; with
  fewer than two places the entry is passed over, so \<open>locations[0]\<close> is read only from a
  list that has it.
\<close>

fun link_shared :: "location_index \<Rightarrow> MultiProjectGraph \<Rightarrow> MultiProjectGraph" where
  "link_shared [] multi = multi"
| "link_shared ((key, locations) # items) multi =
     (case locations of
        src # t # ts \<Rightarrow>
          link_shared items (link_targets src (link_type_for (fst key)) (t # ts) multi)
      | _ \<Rightarrow> link_shared items multi)"

subsection \<open>Triggers\<close>

type_synonym pipeline_dict = "(string \<times> (string \<times> string)) list"

fun index_pipeline_nodes :: "string \<Rightarrow> Node list \<Rightarrow> pipeline_dict \<Rightarrow> pipeline_dict" where
  "index_pipeline_nodes gid [] idx = idx"
| "index_pipeline_nodes gid (n # rest) idx =
     (if node_type n = PIPELINE
      then index_pipeline_nodes gid rest (dict_set idx (normalize_name (node_name n)) (gid, node_id n))
      else index_pipeline_nodes gid rest idx)"

fun index_pipelines :: "CICDGraph list \<Rightarrow> pipeline_dict \<Rightarrow> pipeline_dict" where
  "index_pipelines [] idx = idx"
| "index_pipelines (g # gs) idx =
     index_pipelines gs (index_pipeline_nodes (graph_id g) (nodes g) idx)"

text \<open>The inner loop \<open>for e in g.edges\<close> of \<open>_detect_triggers\<close>, for one graph \<open>g\<close>.\<close>

fun trigger_edges_of ::
  "pipeline_dict \<Rightarrow> CICDGraph \<Rightarrow> Edge list \<Rightarrow> CrossProjectEdge list \<Rightarrow> CrossProjectEdge list"
  where
  "trigger_edges_of pipeline_index g [] acc = acc"
| "trigger_edges_of pipeline_index g (e # rest) acc =
     (if edge_type e \<notin> TRIGGER_EDGE_TYPES then trigger_edges_of pipeline_index g rest acc
      else case get_node g (target_node_id e) of
        None \<Rightarrow> trigger_edges_of pipeline_index g rest acc
      | Some target_node \<Rightarrow>
          (case map_of pipeline_index (normalize_name (node_name target_node)) of
             None \<Rightarrow> trigger_edges_of pipeline_index g rest acc
           | Some (tg_id, tn_id) \<Rightarrow>
               if tg_id \<noteq> graph_id g
               then trigger_edges_of pipeline_index g rest
                      (acc @ [\<lparr>source_graph_id = graph_id g,
                                cpe_source_node_id = source_node_id e,
                                target_graph_id = tg_id, cpe_target_node_id = tn_id,
                                link_type = ''cross_trigger'', confidence = 7 / 10\<rparr>])
               else trigger_edges_of pipeline_index g rest acc))"

fun trigger_edges_loop ::
  "pipeline_dict \<Rightarrow> CICDGraph list \<Rightarrow> CrossProjectEdge list \<Rightarrow> CrossProjectEdge list" where
  "trigger_edges_loop pipeline_index [] acc = acc"
| "trigger_edges_loop pipeline_index (g # gs) acc =
     trigger_edges_loop pipeline_index gs (trigger_edges_of pipeline_index g (edges g) acc)"

definition detect_triggers :: "CICDGraph list \<Rightarrow> CrossProjectEdge list" where
  "detect_triggers gs = trigger_edges_loop (index_pipelines gs []) gs []"

definition link :: "CICDGraph list \<Rightarrow> string \<Rightarrow> MultiProjectGraph" where
  "link gs name =
     (let multi0 = foldl add_graph \<lparr>multi_name = name, graphs = [], cross_edges = []\<rparr> gs;
          node_idx = index_graphs gs [];
          multi1 = link_shared node_idx multi0;
          trigger_edges = detect_triggers gs
      in foldl add_cross_edge multi1 trigger_edges)"

section \<open>DiffSimulator (simulator.py)\<close>

text \<open>
  Modelled from the spec: the inputs and the result of a simulation, with the fields the
  simulator reads and writes. A \<open>Finding\<close> carries a rule id and the ids of the nodes it
  affects; a \<open>RefactorSuggestion\<close> likewise (its description, risk, effort and snippets
  are read by the preview text only); a \<open>RefactorPlan\<close> is an identified, named list of
  suggestions. The preview text (\<open>_generate_diff\<close>) is built from the plan alone and is not
  part of the model. The scores of the collaborator \<open>compute_scores\<close> are three numbers.
\<close>

record Finding =
  rule_id :: string
  affected_node_ids :: "string list"

record RefactorSuggestion =
  rs_rule_id :: string
  rs_affected_node_ids :: "string list"

record RefactorPlan =
  plan_id :: string
  plan_name :: string
  suggestions :: "RefactorSuggestion list"

record scores =
  complexity_score :: rat
  fragility_score :: rat
  maturity_score :: rat

record ScoreDelta =
  metric :: string
  score_before :: rat
  score_after :: rat

record SimulationResult =
  sr_plan_id :: string
  sr_graph_id :: string
  findings_removed :: int
  findings_remaining :: int
  score_deltas :: "ScoreDelta list"
  projected_node_count :: int
  projected_edge_count :: int

subsection \<open>Objects and references\<close>

text \<open>
  The simulator writes into the metadata of nodes, so here the graph is a structure of
  objects in a store. A cell of the store is an object; its address is its place in the
  list of cells of its kind, and a new object takes the next place. A node object refers
  to its metadata dictionary, and a graph object to its nodes and edges. Two nodes may
  refer to one dictionary, and a graph may list one object twice.
\<close>

type_synonym addr = nat

record node_obj =
  obj_id :: string
  obj_type :: NodeType
  obj_name :: string
  obj_metadata :: addr

record graph_obj =
  gobj_id :: string
  gobj_name :: string
  gobj_platform :: "string option"
  gobj_nodes :: "addr list"
  gobj_edges :: "addr list"

record store =
  node_cells :: "node_obj list"
  dict_cells :: "metadata list"
  edge_cells :: "Edge list"

text \<open>The graph a graph object stands for in a store.\<close>

definition node_value :: "store \<Rightarrow> addr \<Rightarrow> Node" where
  "node_value s a =
     (let ob = node_cells s ! a in
      \<lparr>node_id = obj_id ob, node_type = obj_type ob, node_name = obj_name ob,
       metadata = dict_cells s ! obj_metadata ob\<rparr>)"

definition graph_value :: "store \<Rightarrow> graph_obj \<Rightarrow> CICDGraph" where
  "graph_value s g =
     \<lparr>graph_id = gobj_id g, graph_name = gobj_name g, platform = gobj_platform g,
      nodes = map (node_value s) (gobj_nodes g),
      edges = map (\<lambda>a. edge_cells s ! a) (gobj_edges g)\<rparr>"

text \<open>Every reference of the graph object leads to a cell of the store.\<close>

definition graph_ok :: "store \<Rightarrow> graph_obj \<Rightarrow> bool" where
  "graph_ok s g =
     (list_all (\<lambda>a. a < length (node_cells s) \<and>
                     obj_metadata (node_cells s ! a) < length (dict_cells s)) (gobj_nodes g) \<and>
      list_all (\<lambda>a. a < length (edge_cells s)) (gobj_edges g))"

subsection \<open>Deep copy\<close>

text \<open>
  \<open>copy.deepcopy\<close> of the Python library: every object reached from the graph is copied
  into a new cell, once; the memo table maps an object already copied to its copy, so what
  was shared among the originals is shared among the copies.
\<close>

record memo =
  node_memo :: "(addr \<times> addr) list"
  dict_memo :: "(addr \<times> addr) list"
  edge_memo :: "(addr \<times> addr) list"

definition copy_dict :: "addr \<Rightarrow> store \<times> memo \<Rightarrow> addr \<times> (store \<times> memo)" where
  "copy_dict a sm =
     (case map_of (dict_memo (snd sm)) a of
        Some a' \<Rightarrow> (a', sm)
      | None \<Rightarrow>
          (let s = fst sm; a' = length (dict_cells s) in
           (a', (s\<lparr>dict_cells := dict_cells s @ [dict_cells s ! a]\<rparr>,
                 (snd sm)\<lparr>dict_memo := (a, a') # dict_memo (snd sm)\<rparr>))))"

definition copy_edge :: "addr \<Rightarrow> store \<times> memo \<Rightarrow> addr \<times> (store \<times> memo)" where
  "copy_edge a sm =
     (case map_of (edge_memo (snd sm)) a of
        Some a' \<Rightarrow> (a', sm)
      | None \<Rightarrow>
          (let s = fst sm; a' = length (edge_cells s) in
           (a', (s\<lparr>edge_cells := edge_cells s @ [edge_cells s ! a]\<rparr>,
                 (snd sm)\<lparr>edge_memo := (a, a') # edge_memo (snd sm)\<rparr>))))"

definition copy_node :: "addr \<Rightarrow> store \<times> memo \<Rightarrow> addr \<times> (store \<times> memo)" where
  "copy_node a sm =
     (case map_of (node_memo (snd sm)) a of
        Some a' \<Rightarrow> (a', sm)
      | None \<Rightarrow>
          (let ob = node_cells (fst sm) ! a;
               r = copy_dict (obj_metadata ob) sm;
               s1 = fst (snd r); m1 = snd (snd r);
               a' = length (node_cells s1) in
           (a', (s1\<lparr>node_cells := node_cells s1 @ [ob\<lparr>obj_metadata := fst r\<rparr>]\<rparr>,
                 m1\<lparr>node_memo := (a, a') # node_memo m1\<rparr>))))"

fun copy_list ::
  "(addr \<Rightarrow> store \<times> memo \<Rightarrow> addr \<times> (store \<times> memo)) \<Rightarrow> addr list \<Rightarrow> store \<times> memo
   \<Rightarrow> addr list \<times> (store \<times> memo)" where
  "copy_list f [] sm = ([], sm)"
| "copy_list f (a # as) sm =
     (let r = f a sm; rs = copy_list f as (snd r) in (fst r # fst rs, snd rs))"

definition deepcopy :: "store \<Rightarrow> graph_obj \<Rightarrow> graph_obj \<times> store" where
  "deepcopy s g =
     (let ns = copy_list copy_node (gobj_nodes g)
                 (s, \<lparr>node_memo = [], dict_memo = [], edge_memo = []\<rparr>);
          es = copy_list copy_edge (gobj_edges g) (snd ns)
      in (g\<lparr>gobj_nodes := fst ns, gobj_edges := fst es\<rparr>, fst (snd es)))"

subsection \<open>The simulation\<close>

text \<open>
  \<open>_apply_suggestion\<close>: the loop \<open>for node in graph.nodes\<close>, writing the two entries into
  the dictionary the node refers to.
\<close>

fun apply_to_nodes :: "RefactorSuggestion \<Rightarrow> addr list \<Rightarrow> store \<Rightarrow> store" where
  "apply_to_nodes suggestion [] s = s"
| "apply_to_nodes suggestion (a # as) s =
     (let node = node_cells s ! a in
      if obj_id node \<in> set (rs_affected_node_ids suggestion)
      then apply_to_nodes suggestion as
             (s\<lparr>dict_cells := (dict_cells s)
                   [obj_metadata node :=
                      dict_set (dict_set (dict_cells s ! obj_metadata node)
                                  ''refactored'' (VBool True))
                        ''refactor_rule'' (VStr (rs_rule_id suggestion))]\<rparr>)
      else apply_to_nodes suggestion as s)"

definition apply_suggestion :: "store \<Rightarrow> graph_obj \<Rightarrow> RefactorSuggestion \<Rightarrow> store" where
  "apply_suggestion s g suggestion = apply_to_nodes suggestion (gobj_nodes g) s"

text \<open>
  The projected graph: the deep copy, with every suggestion of the plan applied to it, in
  the order of the plan.
\<close>

definition project :: "store \<Rightarrow> graph_obj \<Rightarrow> RefactorPlan \<Rightarrow> graph_obj \<times> store" where
  "project s g plan =
     (let c = deepcopy s g
      in (fst c, foldl (\<lambda>s1 sg. apply_suggestion s1 (fst c) sg) (snd c) (suggestions plan)))"

definition fixed_rule_ids :: "RefactorPlan \<Rightarrow> string set" where
  "fixed_rule_ids plan = set (map rs_rule_id (suggestions plan))"

definition remaining_findings :: "RefactorPlan \<Rightarrow> Finding list \<Rightarrow> Finding list" where
  "remaining_findings plan findings =
     filter (\<lambda>f. rule_id f \<notin> fixed_rule_ids plan) findings"

text \<open>
  \<open>simulate\<close>, from a store and a reference to the graph, to the store it leaves and its
  result. The collaborator \<open>compute_scores\<close> is an argument: a function of the graph it
  is given, which it only reads.
\<close>

definition simulate ::
  "(CICDGraph \<Rightarrow> scores) \<Rightarrow> store \<Rightarrow> graph_obj \<Rightarrow> Finding list \<Rightarrow> RefactorPlan
   \<Rightarrow> store \<times> SimulationResult" where
  "simulate compute_scores s g findings plan =
     (let current_scores = compute_scores (graph_value s g);
          remaining = remaining_findings plan findings;
          removed_count = int (length findings) - int (length remaining);
          p = project s g plan;
          projected_graph = fst p;
          projected_scores = compute_scores (graph_value (snd p) projected_graph);
          deltas =
            [\<lparr>metric = ''complexity'', score_before = complexity_score current_scores,
              score_after = complexity_score projected_scores\<rparr>,
             \<lparr>metric = ''fragility'', score_before = fragility_score current_scores,
              score_after = fragility_score projected_scores\<rparr>,
             \<lparr>metric = ''maturity'', score_before = maturity_score current_scores,
              score_after = maturity_score projected_scores\<rparr>]
      in (snd p,
          \<lparr>sr_plan_id = plan_id plan, sr_graph_id = gobj_id g,
           findings_removed = removed_count,
           findings_remaining = int (length remaining),
           score_deltas = deltas,
           projected_node_count = int (length (gobj_nodes projected_graph)),
           projected_edge_count = int (length (gobj_edges projected_graph))\<rparr>))"

section \<open>Example values\<close>

text \<open>The concrete nodes and edges at which the theorems below are instantiated.\<close>

definition ex_pipeline :: Node where
  "ex_pipeline = \<lparr>node_id = ''n1'', node_type = PIPELINE, node_name = ''build'', metadata = []\<rparr>"

definition ex_job :: Node where
  "ex_job = \<lparr>node_id = ''n2'', node_type = JOB, node_name = ''compile'', metadata = []\<rparr>"

definition ex_pipeline_dup :: Node where
  "ex_pipeline_dup = \<lparr>node_id = ''n3'', node_type = PIPELINE, node_name = ''build'',
     metadata = [(''timeout'', VInt 30)]\<rparr>"


definition ex_edge :: Edge where
  "ex_edge = \<lparr>edge_id = ''e1'', edge_type = CALLS, source_node_id = ''n1'',
     target_node_id = ''n2''\<rparr>"


definition ex_edge_dangling :: Edge where
  "ex_edge_dangling = \<lparr>edge_id = ''e3'', edge_type = CALLS, source_node_id = ''n1'',
     target_node_id = ''nonexistent''\<rparr>"




text \<open>
  A store with a pipeline and a job that share one metadata dictionary, a graph object
  that lists the job twice, two findings and a plan with one suggestion for the job.
\<close>

definition ex_store :: store where
  "ex_store =
     \<lparr>node_cells =
        [\<lparr>obj_id = ''n1'', obj_type = PIPELINE, obj_name = ''Pipeline'', obj_metadata = 0\<rparr>,
         \<lparr>obj_id = ''n2'', obj_type = JOB, obj_name = ''Build'', obj_metadata = 0\<rparr>],
      dict_cells = [[(''timeout'', VInt 30)]],
      edge_cells = [ex_edge]\<rparr>"

definition ex_graph_obj :: graph_obj where
  "ex_graph_obj =
     \<lparr>gobj_id = ''g1'', gobj_name = ''Test CI'', gobj_platform = None,
      gobj_nodes = [0, 1, 1], gobj_edges = [0]\<rparr>"

definition ex_plan :: RefactorPlan where
  "ex_plan =
     \<lparr>plan_id = ''p1'', plan_name = ''Test CI'',
      suggestions = [\<lparr>rs_rule_id = ''no-timeout'', rs_affected_node_ids = [''n2'']\<rparr>]\<rparr>"

definition ex_findings :: "Finding list" where
  "ex_findings =
     [\<lparr>rule_id = ''no-timeout'', affected_node_ids = [''n2'']\<rparr>,
      \<lparr>rule_id = ''unpinned-images'', affected_node_ids = [''n2'']\<rparr>]"

definition ex_scores :: "CICDGraph \<Rightarrow> scores" where
  "ex_scores g = \<lparr>complexity_score = 0, fragility_score = 0, maturity_score = 0\<rparr>"

section \<open>Invariants used in the proofs\<close>

text \<open>The index of a builder holds exactly the text keys of the nodes of its graph.\<close>

definition index_ok :: "GraphBuilder \<Rightarrow> bool" where
  "index_ok b = (set (dict_keys (node_index b)) = builder_key ` set (nodes (graph b)))"

text \<open>Every place of a location index, or of a pipeline index, lies in the graph \<open>gid\<close>.\<close>

definition one_graph :: "string \<Rightarrow> location_index \<Rightarrow> bool" where
  "one_graph gid idx = (\<forall>x \<in> set idx. \<forall>l \<in> set (snd x). fst l = gid)"

definition one_graph_pipelines :: "string \<Rightarrow> pipeline_dict \<Rightarrow> bool" where
  "one_graph_pipelines gid idx = (\<forall>x \<in> set idx. fst (snd x) = gid)"

text \<open>
  For the simulator: a store extends an earlier one when the cells of the earlier store
  are still there, unchanged; an address is fresh when it lies beyond the cells of the
  earlier store; the copies are fresh when every fresh node cell refers to a fresh
  dictionary; a memo table is fresh when it maps to fresh cells only.
\<close>

definition store_extends :: "store \<Rightarrow> store \<Rightarrow> bool" where
  "store_extends s0 s =
     (take (length (node_cells s0)) (node_cells s) = node_cells s0 \<and>
      take (length (dict_cells s0)) (dict_cells s) = dict_cells s0 \<and>
      take (length (edge_cells s0)) (edge_cells s) = edge_cells s0)"

definition fresh_in :: "'a list \<Rightarrow> 'a list \<Rightarrow> addr \<Rightarrow> bool" where
  "fresh_in old new a = (length old \<le> a \<and> a < length new)"

definition copies_fresh :: "store \<Rightarrow> store \<Rightarrow> bool" where
  "copies_fresh s0 s =
     (\<forall>a. fresh_in (node_cells s0) (node_cells s) a \<longrightarrow>
          fresh_in (dict_cells s0) (dict_cells s) (obj_metadata (node_cells s ! a)))"

definition memo_fresh :: "store \<Rightarrow> store \<Rightarrow> memo \<Rightarrow> bool" where
  "memo_fresh s0 s m =
     ((\<forall>p \<in> set (node_memo m). fresh_in (node_cells s0) (node_cells s) (snd p)) \<and>
      (\<forall>p \<in> set (dict_memo m). fresh_in (dict_cells s0) (dict_cells s) (snd p)) \<and>
      (\<forall>p \<in> set (edge_memo m). fresh_in (edge_cells s0) (edge_cells s) (snd p)))"

definition copy_inv :: "store \<Rightarrow> store \<times> memo \<Rightarrow> bool" where
  "copy_inv s0 sm =
     (store_extends s0 (fst sm) \<and> copies_fresh s0 (fst sm) \<and> memo_fresh s0 (fst sm) (snd sm))"

definition projecting :: "store \<Rightarrow> store \<Rightarrow> store \<Rightarrow> bool" where
  "projecting s0 sc s =
     (store_extends s0 s \<and> node_cells s = node_cells sc \<and> edge_cells s = edge_cells sc \<and>
      length (dict_cells s) = length (dict_cells sc))"

section \<open>Properties of the dictionaries and of the builder\<close>

lemma colon_split:
  "a @ CHR '':'' # x = b @ CHR '':'' # y \<Longrightarrow> CHR '':'' \<notin> set a \<Longrightarrow> CHR '':'' \<notin> set b
   \<Longrightarrow> a = b \<and> x = y"
proof (induction a arbitrary: b)
  case Nil
  then show ?case by (cases b) auto
next
  case (Cons c a)
  then show ?case by (cases b) auto
qed

lemma node_type_str_no_colon: "CHR '':'' \<notin> set (node_type_str t)"
  by (cases t) simp_all

lemma node_type_str_inj: "node_type_str s = node_type_str t \<Longrightarrow> s = t"
  by (cases s; cases t) simp_all

lemma builder_key_eq_iff: "builder_key n = builder_key m \<longleftrightarrow> node_key n = node_key m"
proof
  assume "builder_key n = builder_key m"
  then have "node_type_str (node_type n) = node_type_str (node_type m) \<and> node_name n = node_name m"
    unfolding builder_key_def using colon_split node_type_str_no_colon
    by (metis append_Cons append_Nil)
  then show "node_key n = node_key m"
    by (simp add: node_key_def node_type_str_inj)
next
  assume "node_key n = node_key m"
  then show "builder_key n = builder_key m"
    by (simp add: node_key_def builder_key_def)
qed

lemma map_of_dict_set: "map_of (dict_set d k v) = (map_of d)(k \<mapsto> v)"
  by (induction d) (auto simp: fun_eq_iff)

lemma dict_contains_dict_set:
  "dict_contains (dict_set d k v) k' \<longleftrightarrow> k' = k \<or> dict_contains d k'"
  by (simp add: dict_contains_def map_of_dict_set)

lemma dict_contains_keys: "dict_contains d k \<longleftrightarrow> k \<in> set (dict_keys d)"
  by (simp add: dict_contains_def dict_keys_def map_of_eq_None_iff)

lemma dict_keys_dict_set:
  "dict_keys (dict_set d k v) = (if dict_contains d k then dict_keys d else dict_keys d @ [k])"
  by (induction d) (auto simp: dict_keys_def dict_contains_def)

lemma distinct_dict_set: "distinct (dict_keys d) \<Longrightarrow> distinct (dict_keys (dict_set d k v))"
  by (simp add: dict_keys_dict_set dict_contains_keys)

lemma dict_eq_iff: "dict_eq d e \<longleftrightarrow> map_of d = map_of e"
proof
  assume h: "dict_eq d e"
  show "map_of d = map_of e"
  proof
    fix k
    show "map_of d k = map_of e k"
    proof (cases "k \<in> set (dict_keys d) \<or> k \<in> set (dict_keys e)")
      case True
      with h show ?thesis by (auto simp: dict_eq_def list_all_iff)
    next
      case False
      then show ?thesis by (simp add: dict_keys_def map_of_eq_None_iff[symmetric])
    qed
  qed
next
  assume "map_of d = map_of e"
  then show "dict_eq d e" by (simp add: dict_eq_def list_all_iff)
qed


lemma find_append_case:
  "find P (xs @ ys) = (case find P xs of None \<Rightarrow> find P ys | Some x \<Rightarrow> Some x)"
  by (induction xs) simp_all

lemma index_ok_init: "index_ok (init_builder gid name pf)"
  by (simp add: index_ok_def init_builder_def dict_keys_def)

lemma add_nodes_append: "add_nodes b (xs @ ys) = add_nodes (add_nodes b xs) ys"
  by (induction xs arbitrary: b) (simp_all add: Let_def)

lemma foldl_add_nodes: "foldl add_nodes b nss = add_nodes b (concat nss)"
  by (induction nss arbitrary: b) (simp_all add: add_nodes_append)

lemma add_nodes_index_ok: "index_ok b \<Longrightarrow> index_ok (add_nodes b ns)"
proof (induction ns arbitrary: b)
  case Nil
  then show ?case by simp
next
  case (Cons n ns)
  show ?case
  proof (cases "dict_contains (node_index b) (builder_key n)")
    case True
    with Cons show ?thesis by simp
  next
    case False
    let ?b = "b\<lparr>graph := add_node (graph b) n,
                node_index := dict_set (node_index b) (builder_key n) (node_id n)\<rparr>"
    from Cons.prems False have "index_ok ?b"
      by (simp add: index_ok_def dict_keys_dict_set add_node_def)
    then have "index_ok (add_nodes ?b ns)" by (rule Cons.IH)
    with False show ?thesis by (simp add: Let_def)
  qed
qed

lemma add_nodes_edges: "edges (graph (add_nodes b ns)) = edges (graph b)"
  by (induction ns arbitrary: b) (simp_all add: Let_def add_node_def)

lemma add_nodes_find:
  "index_ok b \<Longrightarrow>
   find (\<lambda>m. node_key m = k) (nodes (graph (add_nodes b ns)))
     = find (\<lambda>m. node_key m = k) (nodes (graph b) @ ns)"
proof (induction ns arbitrary: b)
  case Nil
  then show ?case by simp
next
  case (Cons n ns)
  show ?case
  proof (cases "dict_contains (node_index b) (builder_key n)")
    case True
    then obtain m where m: "m \<in> set (nodes (graph b))" "builder_key m = builder_key n"
      using Cons.prems by (auto simp: index_ok_def dict_contains_keys)
    then have mk: "node_key m = node_key n" by (simp add: builder_key_eq_iff)
    have "find (\<lambda>m. node_key m = k) (nodes (graph b) @ n # ns)
            = find (\<lambda>m. node_key m = k) (nodes (graph b) @ ns)"
    proof (cases "node_key n = k")
      case True
      with m mk have "find (\<lambda>m. node_key m = k) (nodes (graph b)) \<noteq> None"
        by (auto simp: find_None_iff)
      then show ?thesis by (auto simp: find_append_case)
    next
      case False
      then show ?thesis by (simp add: find_append_case split: option.splits)
    qed
    with True Cons show ?thesis by simp
  next
    case False
    let ?b = "b\<lparr>graph := add_node (graph b) n,
                node_index := dict_set (node_index b) (builder_key n) (node_id n)\<rparr>"
    from Cons.prems False have "index_ok ?b"
      by (simp add: index_ok_def dict_keys_dict_set add_node_def)
    then have "find (\<lambda>m. node_key m = k) (nodes (graph (add_nodes ?b ns)))
                 = find (\<lambda>m. node_key m = k) (nodes (graph ?b) @ ns)"
      by (rule Cons.IH)
    with False show ?thesis by (simp add: Let_def add_node_def)
  qed
qed

lemma add_nodes_distinct:
  "index_ok b \<Longrightarrow> distinct (map node_key (nodes (graph b))) \<Longrightarrow>
   distinct (map node_key (nodes (graph (add_nodes b ns))))"
proof (induction ns arbitrary: b)
  case Nil
  then show ?case by simp
next
  case (Cons n ns)
  show ?case
  proof (cases "dict_contains (node_index b) (builder_key n)")
    case True
    with Cons show ?thesis by simp
  next
    case False
    let ?b = "b\<lparr>graph := add_node (graph b) n,
                node_index := dict_set (node_index b) (builder_key n) (node_id n)\<rparr>"
    from Cons.prems False have ok: "index_ok ?b"
      by (simp add: index_ok_def dict_keys_dict_set add_node_def)
    from False Cons.prems(1) have "node_key n \<notin> node_key ` set (nodes (graph b))"
      by (auto simp: index_ok_def dict_contains_keys builder_key_eq_iff[symmetric])
    with Cons.prems(2) have "distinct (map node_key (nodes (graph ?b)))"
      by (simp add: add_node_def)
    with ok have "distinct (map node_key (nodes (graph (add_nodes ?b ns))))" by (rule Cons.IH)
    with False show ?thesis by (simp add: Let_def)
  qed
qed

lemma add_nodes_subset:
  "set (nodes (graph (add_nodes b ns))) \<subseteq> set (nodes (graph b)) \<union> set ns"
proof (induction ns arbitrary: b)
  case Nil
  then show ?case by simp
next
  case (Cons n ns)
  let ?b = "b\<lparr>graph := add_node (graph b) n,
              node_index := dict_set (node_index b) (builder_key n) (node_id n)\<rparr>"
  have "set (nodes (graph (add_nodes ?b ns))) \<subseteq> set (nodes (graph ?b)) \<union> set ns"
    by (rule Cons.IH)
  moreover have "set (nodes (graph (add_nodes b ns))) \<subseteq> set (nodes (graph b)) \<union> set ns"
    by (rule Cons.IH)
  ultimately show ?case by (auto simp: Let_def add_node_def)
qed

lemma add_nodes_prefix:
  "\<exists>ys. nodes (graph (add_nodes b ns)) = nodes (graph b) @ ys"
proof (induction ns arbitrary: b)
  case Nil
  then show ?case by simp
next
  case (Cons n ns)
  let ?b = "b\<lparr>graph := add_node (graph b) n,
              node_index := dict_set (node_index b) (builder_key n) (node_id n)\<rparr>"
  obtain ys where "nodes (graph (add_nodes ?b ns)) = nodes (graph ?b) @ ys"
    using Cons.IH by blast
  moreover obtain zs where "nodes (graph (add_nodes b ns)) = nodes (graph b) @ zs"
    using Cons.IH by blast
  ultimately show ?case by (auto simp: Let_def add_node_def)
qed

lemma find_filter_distinct:
  "distinct (map f xs) \<Longrightarrow> find (\<lambda>m. f m = k) xs = Some y \<Longrightarrow>
   filter (\<lambda>m. f m = k) xs = [y]"
proof (induction xs)
  case Nil
  then show ?case by simp
next
  case (Cons x xs)
  show ?case
  proof (cases "f x = k")
    case True
    with Cons.prems have "y = x" by simp
    from True Cons.prems(1) have "\<forall>m \<in> set xs. f m \<noteq> k" by (auto simp: image_iff)
    then have "filter (\<lambda>m. f m = k) xs = []" by (simp add: filter_empty_conv)
    with True \<open>y = x\<close> show ?thesis by simp
  next
    case False
    with Cons show ?thesis by simp
  qed
qed

text \<open>
  C3. Whatever sequence of \<open>add_nodes\<close> calls one builder receives, the built graph holds
  no two nodes with the same \<open>(node_type, name)\<close>, holds only nodes that were passed in,
  and for every node passed in the graph holds exactly one node with its key: the first
  node with that key in the order of the calls. Every later node with the key is dropped,
  whatever its metadata.
\<close>

theorem first_node_wins:
  "let g = build (foldl add_nodes (init_builder gid name pf) nss) in
     distinct (map node_key (nodes g)) \<and>
     set (nodes g) \<subseteq> set (concat nss) \<and>
     (\<forall>n \<in> set (concat nss). \<exists>f.
        find (\<lambda>m. node_key m = node_key n) (concat nss) = Some f \<and>
        filter (\<lambda>m. node_key m = node_key n) (nodes g) = [f])"
proof -
  let ?b = "init_builder gid name pf"
  define g where "g = build (foldl add_nodes ?b nss)"
  have g: "g = graph (add_nodes ?b (concat nss))"
    by (simp add: g_def build_def foldl_add_nodes)
  have b0: "nodes (graph ?b) = []" by (simp add: init_builder_def)
  have d: "distinct (map node_key (nodes g))"
    unfolding g by (rule add_nodes_distinct) (simp_all add: index_ok_init b0)
  have s: "set (nodes g) \<subseteq> set (concat nss)"
    unfolding g using add_nodes_subset[of ?b "concat nss"] by (simp add: b0)
  have f: "\<exists>f. find (\<lambda>m. node_key m = node_key n) (concat nss) = Some f \<and>
            filter (\<lambda>m. node_key m = node_key n) (nodes g) = [f]"
    if "n \<in> set (concat nss)" for n
  proof -
    from that obtain f where f: "find (\<lambda>m. node_key m = node_key n) (concat nss) = Some f"
      by (cases "find (\<lambda>m. node_key m = node_key n) (concat nss)") (auto simp: find_None_iff)
    have "find (\<lambda>m. node_key m = node_key n) (nodes g) = Some f"
      unfolding g using add_nodes_find[OF index_ok_init, of "node_key n" gid name pf "concat nss"] f
      by (simp add: b0)
    with d have "filter (\<lambda>m. node_key m = node_key n) (nodes g) = [f]"
      by (rule find_filter_distinct)
    with f show ?thesis by blast
  qed
  from d s f show ?thesis unfolding Let_def g_def[symmetric] by blast
qed

text \<open>
  At the calls \<open>add_nodes([pipeline, job])\<close>, \<open>add_nodes([pipeline_dup])\<close>, where the
  last node has the key of the first and other metadata: the graph keeps the first.
\<close>

theorem first_node_wins_witness:
  "nodes (build (foldl add_nodes (init_builder ''g1'' ''test'' None)
      [[ex_pipeline, ex_job], [ex_pipeline_dup]])) = [ex_pipeline, ex_job] \<and>
   find (\<lambda>m. node_key m = node_key ex_pipeline_dup)
     (concat [[ex_pipeline, ex_job], [ex_pipeline_dup]]) = Some ex_pipeline \<and>
   filter (\<lambda>m. node_key m = node_key ex_pipeline_dup)
     (nodes (build (foldl add_nodes (init_builder ''g1'' ''test'' None)
        [[ex_pipeline, ex_job], [ex_pipeline_dup]]))) = [ex_pipeline]"
  using first_node_wins [of "''g1''" "''test''" None "[[ex_pipeline, ex_job], [ex_pipeline_dup]]"]
  by (simp add: ex_pipeline_def ex_job_def ex_pipeline_dup_def
      init_builder_def builder_key_def dict_contains_def add_node_def
      add_edge_def add_edges_def build_def node_key_def run_calls_def Let_def)

lemma add_edges_loop_edges:
  "edges (graph (add_edges_loop V b es))
     = edges (graph b) @ filter (\<lambda>e. source_node_id e \<in> V \<and> target_node_id e \<in> V) es"
  by (induction es arbitrary: b) (simp_all add: add_edge_def)

lemma add_edges_loop_nodes: "nodes (graph (add_edges_loop V b es)) = nodes (graph b)"
  by (induction es arbitrary: b) (simp_all add: add_edge_def)

lemma add_edges_loop_index: "node_index (add_edges_loop V b es) = node_index b"
  by (induction es arbitrary: b) simp_all

lemma add_edges_edges:
  "edges (graph (add_edges b es))
     = edges (graph b) @
       filter (\<lambda>e. source_node_id e \<in> node_id ` set (nodes (graph b)) \<and>
                    target_node_id e \<in> node_id ` set (nodes (graph b))) es"
  by (simp add: add_edges_def add_edges_loop_edges)

lemma add_edges_nodes: "nodes (graph (add_edges b es)) = nodes (graph b)"
  by (simp add: add_edges_def add_edges_loop_nodes)

lemma run_calls_snoc: "run_calls b (cs @ [c]) = do_call (run_calls b cs) c"
  by (simp add: run_calls_def)

lemma do_call_nodes_mono: "set (nodes (graph b)) \<subseteq> set (nodes (graph (do_call b c)))"
proof (cases c)
  case (AddNodes ns)
  then show ?thesis using add_nodes_prefix[of b ns] by auto
next
  case (AddEdges es)
  then show ?thesis by (simp add: add_edges_nodes)
qed

lemma run_calls_nodes_mono: "set (nodes (graph b)) \<subseteq> set (nodes (graph (run_calls b cs)))"
proof (induction cs rule: rev_induct)
  case Nil
  then show ?case by (simp add: run_calls_def)
next
  case (snoc c cs)
  then show ?case using do_call_nodes_mono[of "run_calls b cs" c]
    by (auto simp: run_calls_snoc)
qed

lemma run_calls_append: "run_calls b (cs @ ds) = run_calls (run_calls b cs) ds"
  by (simp add: run_calls_def)

lemma run_calls_edge_origin:
  "e \<in> set (edges (graph (run_calls b cs))) \<Longrightarrow>
   e \<in> set (edges (graph b)) \<or>
   (\<exists>pre es post. cs = pre @ AddEdges es # post \<and> e \<in> set es \<and>
      source_node_id e \<in> node_id ` set (nodes (graph (run_calls b pre))) \<and>
      target_node_id e \<in> node_id ` set (nodes (graph (run_calls b pre))))"
proof (induction cs rule: rev_induct)
  case Nil
  then show ?case by (simp add: run_calls_def)
next
  case (snoc c cs)
  let ?b = "run_calls b cs"
  show ?case
  proof (cases "e \<in> set (edges (graph ?b))")
    case True
    with snoc.IH show ?thesis by (metis append_Cons append_assoc)
  next
    case False
    with snoc.prems obtain es where c: "c = AddEdges es"
      by (cases c) (auto simp: run_calls_snoc add_nodes_edges)
    with snoc.prems False have "e \<in> set es \<and>
        source_node_id e \<in> node_id ` set (nodes (graph ?b)) \<and>
        target_node_id e \<in> node_id ` set (nodes (graph ?b))"
      by (auto simp: run_calls_snoc add_edges_edges)
    with c have "cs @ [c] = cs @ AddEdges es # [] \<and> e \<in> set es \<and>
        source_node_id e \<in> node_id ` set (nodes (graph (run_calls b cs))) \<and>
        target_node_id e \<in> node_id ` set (nodes (graph (run_calls b cs)))"
      by simp
    then show ?thesis by blast
  qed
qed

text \<open>
  C4. Every edge of a graph built by any sequence of \<open>add_nodes\<close> and \<open>add_edges\<close> calls
  was passed to an \<open>add_edges\<close> call at whose time both its \<open>source_node_id\<close> and its
  \<open>target_node_id\<close> were ids of nodes of the graph (and they still are in the built
  graph). One call appends exactly the edges whose two ends are ids of the graph's nodes,
  in order, and leaves the nodes alone; any other edge is skipped. The calls are total
  functions: no input makes them fail.
\<close>

theorem built_edges_valid:
  "(e \<in> set (edges (build (run_calls (init_builder gid name pf) cs))) \<longrightarrow>
     (\<exists>pre es post. cs = pre @ AddEdges es # post \<and> e \<in> set es \<and>
        source_node_id e \<in> node_id ` set (nodes (graph (run_calls (init_builder gid name pf) pre))) \<and>
        target_node_id e \<in> node_id ` set (nodes (graph (run_calls (init_builder gid name pf) pre)))) \<and>
     source_node_id e \<in> node_id ` set (nodes (build (run_calls (init_builder gid name pf) cs))) \<and>
     target_node_id e \<in> node_id ` set (nodes (build (run_calls (init_builder gid name pf) cs)))) \<and>
   edges (graph (add_edges b es')) =
     edges (graph b) @
     filter (\<lambda>e. source_node_id e \<in> node_id ` set (nodes (graph b)) \<and>
                  target_node_id e \<in> node_id ` set (nodes (graph b))) es' \<and>
   nodes (graph (add_edges b es')) = nodes (graph b)"
proof -
  let ?b0 = "init_builder gid name pf"
  have A: "(\<exists>pre es post. cs = pre @ AddEdges es # post \<and> e \<in> set es \<and>
        source_node_id e \<in> node_id ` set (nodes (graph (run_calls ?b0 pre))) \<and>
        target_node_id e \<in> node_id ` set (nodes (graph (run_calls ?b0 pre)))) \<and>
     source_node_id e \<in> node_id ` set (nodes (build (run_calls ?b0 cs))) \<and>
     target_node_id e \<in> node_id ` set (nodes (build (run_calls ?b0 cs)))"
    if e: "e \<in> set (edges (build (run_calls ?b0 cs)))"
  proof -
    have "edges (graph ?b0) = []" by (simp add: init_builder_def)
    with e run_calls_edge_origin[of e ?b0 cs]
    obtain pre es post where o: "cs = pre @ AddEdges es # post" "e \<in> set es"
        "source_node_id e \<in> node_id ` set (nodes (graph (run_calls ?b0 pre)))"
        "target_node_id e \<in> node_id ` set (nodes (graph (run_calls ?b0 pre)))"
      by (auto simp: build_def)
    have "set (nodes (graph (run_calls ?b0 pre))) \<subseteq> set (nodes (graph (run_calls ?b0 cs)))"
      unfolding o(1) run_calls_append by (rule run_calls_nodes_mono)
    with o(3,4) have "source_node_id e \<in> node_id ` set (nodes (build (run_calls ?b0 cs)))"
      "target_node_id e \<in> node_id ` set (nodes (build (run_calls ?b0 cs)))"
      by (auto simp: build_def)
    with o show ?thesis by blast
  qed
  from A show ?thesis by (simp add: add_edges_edges add_edges_nodes)
qed

text \<open>
  An edge passed before its nodes is skipped; passed again after them it is kept, and the
  edge to a node that does not exist is skipped.
\<close>

theorem built_edges_valid_witness:
  "edges (build (run_calls (init_builder ''g1'' ''test'' None)
      [AddEdges [ex_edge], AddNodes [ex_pipeline, ex_job], AddEdges [ex_edge, ex_edge_dangling]]))
     = [ex_edge] \<and>
   source_node_id ex_edge \<in> node_id ` set (nodes (graph (run_calls (init_builder ''g1'' ''test'' None)
      [AddEdges [ex_edge], AddNodes [ex_pipeline, ex_job]]))) \<and>
   edges (graph (add_edges (init_builder ''g1'' ''test'' None) [ex_edge])) = []"
  using built_edges_valid [of ex_edge "''g1''" "''test''" None
      "[AddEdges [ex_edge], AddNodes [ex_pipeline, ex_job], AddEdges [ex_edge, ex_edge_dangling]]"
      "init_builder ''g1'' ''test'' None" "[ex_edge]"]
  by (simp add: ex_pipeline_def ex_job_def ex_edge_def ex_edge_dangling_def
      init_builder_def builder_key_def dict_contains_def add_node_def
      add_edge_def add_edges_def build_def node_key_def run_calls_def Let_def)




section \<open>Properties of the differ\<close>


lemma index_nodes_snoc:
  "index_nodes (ns @ [n]) = dict_set (index_nodes ns) (node_key n) n"
  by (simp add: index_nodes_def node_key_def)

lemma index_nodes_distinct: "distinct (dict_keys (index_nodes ns))"
proof (induction ns rule: rev_induct)
  case Nil
  then show ?case by (simp add: index_nodes_def dict_keys_def)
next
  case (snoc n ns)
  then show ?case by (simp add: index_nodes_snoc distinct_dict_set)
qed

lemma index_nodes_map_of:
  "map_of (index_nodes ns) k = find (\<lambda>n. node_key n = k) (rev ns)"
proof (induction ns rule: rev_induct)
  case Nil
  then show ?case by (simp add: index_nodes_def)
next
  case (snoc n ns)
  then show ?case by (simp add: index_nodes_snoc map_of_dict_set)
qed



lemma index_nodes_item:
  assumes "(k, n) \<in> set (index_nodes ns)"
  shows "map_of (index_nodes ns) k = Some n" and "node_key n = k"
proof -
  from assms index_nodes_distinct[of ns] show m: "map_of (index_nodes ns) k = Some n"
    by (simp add: dict_keys_def)
  then have "find (\<lambda>n. node_key n = k) (rev ns) = Some n" by (simp add: index_nodes_map_of)
  then show "node_key n = k" by (auto simp: find_Some_iff)
qed

lemma added_pass_eq:
  "added_pass B items acc
     = acc @ map (\<lambda>(k, n). node_change ''added'' n [])
               (filter (\<lambda>(k, n). \<not> dict_contains B k) items)"
  by (induction items arbitrary: acc) auto

lemma removed_pass_eq:
  "removed_pass A items acc
     = acc @ map (\<lambda>(k, n). node_change ''removed'' n [])
               (filter (\<lambda>(k, n). \<not> dict_contains A k) items)"
  by (induction items arbitrary: acc) auto

lemma modified_pass_eq:
  "modified_pass A items acc
     = acc @ map (\<lambda>(k, b). node_change ''modified'' (the (map_of A k)) ''metadata changed'')
               (filter (\<lambda>(k, b). case map_of A k of None \<Rightarrow> False
                                   | Some a \<Rightarrow> \<not> dict_eq (metadata b) (metadata a)) items)"
  by (induction items arbitrary: acc) (auto split: option.splits)

lemma dict_eq_refl: "dict_eq d d"
  by (simp add: dict_eq_iff)

lemma filter_nil: "(\<And>x. x \<in> set xs \<Longrightarrow> \<not> P x) \<Longrightarrow> filter P xs = []"
  by (simp add: filter_empty_conv)

lemma edge_set_diff_self: "edge_set_diff xs xs = []"
  by (simp add: edge_set_diff_def filter_empty_conv)

text \<open>
  C1. The diff of a graph with itself has no node change and no edge change, so
  \<open>total_changes\<close> is 0 and \<open>has_changes\<close> is false.
\<close>

theorem diff_self_no_changes:
  "node_changes (diff i g g) = [] \<and> edge_changes (diff i g g) = [] \<and>
   total_changes (diff i g g) = 0 \<and> has_changes (diff i g g) = False"
proof -
  let ?d = "index_nodes (nodes g)"
  have a: "filter (\<lambda>(k, n). \<not> dict_contains ?d k) ?d = []"
    by (rule filter_nil) (force simp: dict_contains_keys dict_keys_def)
  have m: "filter (\<lambda>(k, b). case map_of ?d k of None \<Rightarrow> False
                     | Some a \<Rightarrow> \<not> dict_eq (metadata b) (metadata a)) ?d = []"
    by (rule filter_nil) (auto simp: index_nodes_item(1) dict_eq_refl)
  have n: "node_changes (diff i g g) = []"
    by (simp add: diff_def Let_def added_pass_eq removed_pass_eq modified_pass_eq a m)
  have e: "edge_changes (diff i g g) = []"
    by (simp add: diff_def Let_def edge_set_diff_self)
  from n e show ?thesis by (simp add: total_changes_def has_changes_def)
qed
















section \<open>Properties of the linker\<close>






lemma dict_set_subset: "set (dict_set d k v) \<subseteq> insert (k, v) (set d)"
  by (induction d) (auto split: if_splits)

lemma one_graph_dict_set:
  "one_graph gid idx \<Longrightarrow> \<forall>l \<in> set locs. fst l = gid \<Longrightarrow> one_graph gid (dict_set idx k locs)"
  unfolding one_graph_def using dict_set_subset[of idx k locs] by fastforce

lemma one_graph_append:
  assumes "one_graph gid idx"
  shows "one_graph gid (dict_append idx k (gid, nid))"
proof (cases "map_of idx k")
  case None
  with assms show ?thesis by (simp add: dict_append_def one_graph_dict_set)
next
  case (Some vs)
  then have "(k, vs) \<in> set idx" by (rule map_of_SomeD)
  with assms have "\<forall>l \<in> set vs. fst l = gid" unfolding one_graph_def by fastforce
  with assms Some show ?thesis by (simp add: dict_append_def one_graph_dict_set)
qed

lemma one_graph_index_graph_nodes:
  "one_graph gid idx \<Longrightarrow> one_graph gid (index_graph_nodes gid ns idx)"
  by (induction ns arbitrary: idx) (simp_all add: one_graph_append)

lemma link_targets_same_graph:
  "\<forall>l \<in> set locs. fst l = fst src \<Longrightarrow> link_targets src lt locs multi = multi"
  by (induction locs) simp_all

lemma link_shared_one_graph: "one_graph gid idx \<Longrightarrow> link_shared idx multi = multi"
proof (induction idx)
  case Nil
  then show ?case by simp
next
  case (Cons item idx)
  obtain key locs where item: "item = (key, locs)" by (cases item)
  from Cons.prems have rest: "one_graph gid idx" unfolding one_graph_def by simp
  from Cons.prems item have all: "\<forall>l \<in> set locs. fst l = gid" unfolding one_graph_def by simp
  show ?case
  proof (cases locs)
    case Nil
    with item rest Cons.IH show ?thesis by simp
  next
    case c1: (Cons src ts)
    show ?thesis
    proof (cases ts)
      case Nil
      with c1 item rest Cons.IH show ?thesis by simp
    next
      case c2: (Cons t ts')
      from all c1 c2 have "\<forall>l \<in> set (t # ts'). fst l = fst src" by simp
      then have "link_targets src (link_type_for (fst key)) (t # ts') multi = multi"
        by (rule link_targets_same_graph)
      with c1 c2 item rest Cons.IH show ?thesis by simp
    qed
  qed
qed

lemma one_graph_index_pipeline_nodes:
  "one_graph_pipelines gid idx \<Longrightarrow> one_graph_pipelines gid (index_pipeline_nodes gid ns idx)"
proof (induction ns arbitrary: idx)
  case Nil
  then show ?case by simp
next
  case (Cons n ns)
  from Cons.prems
  have "one_graph_pipelines gid (dict_set idx (normalize_name (node_name n)) (gid, node_id n))"
    unfolding one_graph_pipelines_def
    using dict_set_subset[of idx "normalize_name (node_name n)" "(gid, node_id n)"] by fastforce
  with Cons show ?case by simp
qed

lemma trigger_edges_of_one_graph:
  "one_graph_pipelines (graph_id g) idx \<Longrightarrow> trigger_edges_of idx g es acc = acc"
proof (induction es)
  case Nil
  then show ?case by simp
next
  case (Cons e es)
  have "tg = graph_id g" if "map_of idx k = Some (tg, tn)" for k tg tn
    using Cons.prems map_of_SomeD[OF that] unfolding one_graph_pipelines_def by fastforce
  with Cons show ?case by (auto split: option.splits)
qed

lemma foldl_add_graph_cross_edges:
  "cross_edges (foldl add_graph m gs) = cross_edges m"
  by (induction gs arbitrary: m) (simp_all add: add_graph_def)

text \<open>
  C8. Linking a single graph yields no cross-project edge: the shared-resource pass
  emits none, since every place of the index lies in that graph, and the trigger pass
  emits none, since every indexed pipeline lies in it.
\<close>

theorem link_single_graph_no_cross_edges:
  "cross_edges (link [g] name) = [] \<and> graphs (link [g] name) = [g] \<and>
   detect_triggers [g] = []"
proof -
  have "one_graph (graph_id g) []" by (simp add: one_graph_def)
  then have a: "one_graph (graph_id g) (index_graphs [g] [])"
    by (simp add: one_graph_index_graph_nodes)
  have "one_graph_pipelines (graph_id g) []" by (simp add: one_graph_pipelines_def)
  then have b: "one_graph_pipelines (graph_id g) (index_pipelines [g] [])"
    by (simp add: one_graph_index_pipeline_nodes)
  have t: "detect_triggers [g] = []"
    unfolding detect_triggers_def using trigger_edges_of_one_graph[OF b] by simp
  show ?thesis
    unfolding link_def Let_def t link_shared_one_graph[OF a]
    by (simp add: add_graph_def)
qed

section \<open>Properties of the simulator\<close>

lemma take_prefix_length:
  assumes "take (length ys) xs = ys"
  shows "length ys \<le> length xs"
  using arg_cong[OF assms, of length] by simp

lemma fresh_in_snoc: "fresh_in old new a \<Longrightarrow> fresh_in old (new @ [x]) a"
  by (simp add: fresh_in_def)

lemma fresh_in_new: "take (length old) new = old \<Longrightarrow> fresh_in old (new @ [x]) (length new)"
  using take_prefix_length[of old new] by (simp add: fresh_in_def)

lemma store_extends_lengths:
  assumes "store_extends s0 s"
  shows "length (node_cells s0) \<le> length (node_cells s)"
    and "length (dict_cells s0) \<le> length (dict_cells s)"
    and "length (edge_cells s0) \<le> length (edge_cells s)"
  using assms by (simp_all add: store_extends_def take_prefix_length)

lemma copy_inv_init:
  "copy_inv s (s, \<lparr>node_memo = [], dict_memo = [], edge_memo = []\<rparr>)"
  by (simp add: copy_inv_def store_extends_def copies_fresh_def memo_fresh_def fresh_in_def)

lemma copy_dict_cells:
  "node_cells (fst (snd (copy_dict a sm))) = node_cells (fst sm)"
  "edge_cells (fst (snd (copy_dict a sm))) = edge_cells (fst sm)"
  "node_memo (snd (snd (copy_dict a sm))) = node_memo (snd sm)"
  by (simp_all add: copy_dict_def Let_def split: option.splits)

lemma copy_dict_inv:
  assumes "copy_inv s0 sm"
  shows "copy_inv s0 (snd (copy_dict a sm))"
    and "fresh_in (dict_cells s0) (dict_cells (fst (snd (copy_dict a sm)))) (fst (copy_dict a sm))"
proof -
  obtain s m where sm: "sm = (s, m)" by (cases sm)
  from assms sm have ext: "store_extends s0 s" and cf: "copies_fresh s0 s"
    and mf: "memo_fresh s0 s m" by (simp_all add: copy_inv_def)
  show "copy_inv s0 (snd (copy_dict a sm))"
  proof (cases "map_of (dict_memo m) a")
    case (Some a')
    with assms sm show ?thesis by (simp add: copy_dict_def)
  next
    case None
    let ?s = "s\<lparr>dict_cells := dict_cells s @ [dict_cells s ! a]\<rparr>"
    let ?m = "m\<lparr>dict_memo := (a, length (dict_cells s)) # dict_memo m\<rparr>"
    from ext store_extends_lengths(2)[OF ext] have e: "store_extends s0 ?s"
      by (simp add: store_extends_def)
    from cf have c: "copies_fresh s0 ?s"
      by (simp add: copies_fresh_def fresh_in_snoc)
    from ext have "fresh_in (dict_cells s0) (dict_cells s @ [dict_cells s ! a]) (length (dict_cells s))"
      by (simp add: store_extends_def fresh_in_new)
    with mf have f: "memo_fresh s0 ?s ?m"
      by (simp add: memo_fresh_def fresh_in_snoc)
    from e c f None sm show ?thesis by (simp add: copy_dict_def Let_def copy_inv_def)
  qed
  show "fresh_in (dict_cells s0) (dict_cells (fst (snd (copy_dict a sm)))) (fst (copy_dict a sm))"
  proof (cases "map_of (dict_memo m) a")
    case (Some a')
    then have "(a, a') \<in> set (dict_memo m)" by (rule map_of_SomeD)
    with mf have "fresh_in (dict_cells s0) (dict_cells s) a'"
      by (fastforce simp: memo_fresh_def)
    with Some sm show ?thesis by (simp add: copy_dict_def)
  next
    case None
    from ext have "fresh_in (dict_cells s0) (dict_cells s @ [dict_cells s ! a]) (length (dict_cells s))"
      by (simp add: store_extends_def fresh_in_new)
    with None sm show ?thesis by (simp add: copy_dict_def Let_def)
  qed
qed

lemma copy_edge_cells:
  "node_cells (fst (snd (copy_edge a sm))) = node_cells (fst sm)"
  "dict_cells (fst (snd (copy_edge a sm))) = dict_cells (fst sm)"
  by (simp_all add: copy_edge_def Let_def split: option.splits)

lemma copy_edge_grows:
  "fresh_in old (edge_cells (fst sm)) x \<Longrightarrow> fresh_in old (edge_cells (fst (snd (copy_edge a sm)))) x"
  by (simp add: copy_edge_def Let_def fresh_in_snoc split: option.splits)

lemma copy_edge_inv:
  assumes "copy_inv s0 sm"
  shows "copy_inv s0 (snd (copy_edge a sm))"
    and "fresh_in (edge_cells s0) (edge_cells (fst (snd (copy_edge a sm)))) (fst (copy_edge a sm))"
proof -
  obtain s m where sm: "sm = (s, m)" by (cases sm)
  from assms sm have ext: "store_extends s0 s" and cf: "copies_fresh s0 s"
    and mf: "memo_fresh s0 s m" by (simp_all add: copy_inv_def)
  have new: "fresh_in (edge_cells s0) (edge_cells s @ [edge_cells s ! a]) (length (edge_cells s))"
    using ext by (simp add: store_extends_def fresh_in_new)
  show "copy_inv s0 (snd (copy_edge a sm))"
  proof (cases "map_of (edge_memo m) a")
    case (Some a')
    with assms sm show ?thesis by (simp add: copy_edge_def)
  next
    case None
    let ?s = "s\<lparr>edge_cells := edge_cells s @ [edge_cells s ! a]\<rparr>"
    let ?m = "m\<lparr>edge_memo := (a, length (edge_cells s)) # edge_memo m\<rparr>"
    from ext store_extends_lengths(3)[OF ext] have e: "store_extends s0 ?s"
      by (simp add: store_extends_def)
    from cf have c: "copies_fresh s0 ?s" by (simp add: copies_fresh_def)
    from mf new have f: "memo_fresh s0 ?s ?m"
      by (simp add: memo_fresh_def fresh_in_snoc)
    from e c f None sm show ?thesis by (simp add: copy_edge_def Let_def copy_inv_def)
  qed
  show "fresh_in (edge_cells s0) (edge_cells (fst (snd (copy_edge a sm)))) (fst (copy_edge a sm))"
  proof (cases "map_of (edge_memo m) a")
    case (Some a')
    then have "(a, a') \<in> set (edge_memo m)" by (rule map_of_SomeD)
    with mf have "fresh_in (edge_cells s0) (edge_cells s) a'"
      by (fastforce simp: memo_fresh_def)
    with Some sm show ?thesis by (simp add: copy_edge_def)
  next
    case None
    with new sm show ?thesis by (simp add: copy_edge_def Let_def)
  qed
qed

lemma copy_node_grows:
  "fresh_in old (node_cells (fst sm)) x \<Longrightarrow> fresh_in old (node_cells (fst (snd (copy_node a sm)))) x"
  by (simp add: copy_node_def Let_def fresh_in_snoc copy_dict_cells split: option.splits)

lemma copy_node_inv:
  assumes "copy_inv s0 sm"
  shows "copy_inv s0 (snd (copy_node a sm))"
    and "fresh_in (node_cells s0) (node_cells (fst (snd (copy_node a sm)))) (fst (copy_node a sm))"
proof -
  obtain s m where sm: "sm = (s, m)" by (cases sm)
  from assms sm have mf: "memo_fresh s0 s m" by (simp add: copy_inv_def)
  let ?ob = "node_cells s ! a"
  let ?r = "copy_dict (obj_metadata ?ob) sm"
  let ?s1 = "fst (snd ?r)" and ?m1 = "snd (snd ?r)"
  let ?cell = "?ob\<lparr>obj_metadata := fst ?r\<rparr>"
  let ?s2 = "?s1\<lparr>node_cells := node_cells ?s1 @ [?cell]\<rparr>"
  let ?m2 = "?m1\<lparr>node_memo := (a, length (node_cells ?s1)) # node_memo ?m1\<rparr>"
  have inv1: "copy_inv s0 (snd ?r)" using assms by (rule copy_dict_inv(1))
  have fr: "fresh_in (dict_cells s0) (dict_cells ?s1) (fst ?r)" using assms by (rule copy_dict_inv(2))
  from inv1 have ext: "store_extends s0 ?s1" and cf: "copies_fresh s0 ?s1"
    and mf1: "memo_fresh s0 ?s1 ?m1" by (simp_all add: copy_inv_def)
  have new: "fresh_in (node_cells s0) (node_cells ?s1 @ [?cell]) (length (node_cells ?s1))"
    using ext by (simp add: store_extends_def fresh_in_new)
  have none: "copy_node a sm = (length (node_cells ?s1), (?s2, ?m2))"
    if "map_of (node_memo m) a = None"
    using that sm by (simp add: copy_node_def Let_def)
  show "copy_inv s0 (snd (copy_node a sm))"
  proof (cases "map_of (node_memo m) a")
    case (Some a')
    with assms sm show ?thesis by (simp add: copy_node_def)
  next
    case None
    from ext store_extends_lengths(1)[OF ext] have e: "store_extends s0 ?s2"
      by (simp add: store_extends_def)
    have c: "copies_fresh s0 ?s2"
      unfolding copies_fresh_def
    proof (intro allI impI)
      fix x
      assume x: "fresh_in (node_cells s0) (node_cells ?s2) x"
      show "fresh_in (dict_cells s0) (dict_cells ?s2) (obj_metadata (node_cells ?s2 ! x))"
      proof (cases "x < length (node_cells ?s1)")
        case True
        with x have "fresh_in (node_cells s0) (node_cells ?s1) x" by (simp add: fresh_in_def)
        with cf have "fresh_in (dict_cells s0) (dict_cells ?s1) (obj_metadata (node_cells ?s1 ! x))"
          by (simp add: copies_fresh_def)
        with True show ?thesis by (simp add: nth_append)
      next
        case False
        with x have "x = length (node_cells ?s1)" by (simp add: fresh_in_def)
        with fr show ?thesis by simp
      qed
    qed
    from mf1 new have f: "memo_fresh s0 ?s2 ?m2"
      by (simp add: memo_fresh_def fresh_in_snoc)
    from e c f show ?thesis unfolding none[OF None] by (simp add: copy_inv_def)
  qed
  show "fresh_in (node_cells s0) (node_cells (fst (snd (copy_node a sm)))) (fst (copy_node a sm))"
  proof (cases "map_of (node_memo m) a")
    case (Some a')
    then have "(a, a') \<in> set (node_memo m)" by (rule map_of_SomeD)
    with mf have "fresh_in (node_cells s0) (node_cells s) a'"
      by (fastforce simp: memo_fresh_def)
    with Some sm show ?thesis by (simp add: copy_node_def)
  next
    case None
    from new show ?thesis unfolding none[OF None] by simp
  qed
qed

lemma copy_list_inv:
  assumes step: "\<And>a sm. copy_inv s0 sm \<Longrightarrow> copy_inv s0 (snd (f a sm)) \<and> F (fst (snd (f a sm))) (fst (f a sm))"
    and grows: "\<And>a sm x. F (fst sm) x \<Longrightarrow> F (fst (snd (f a sm))) x"
  shows "copy_inv s0 sm \<Longrightarrow>
         copy_inv s0 (snd (copy_list f as sm)) \<and>
         list_all (F (fst (snd (copy_list f as sm)))) (fst (copy_list f as sm))"
proof (induction as arbitrary: sm)
  case Nil
  then show ?case by simp
next
  case (Cons a as)
  let ?r = "f a sm"
  from step[OF Cons.prems] have i1: "copy_inv s0 (snd ?r)" and f1: "F (fst (snd ?r)) (fst ?r)"
    by simp_all
  from Cons.IH[OF i1] have i2: "copy_inv s0 (snd (copy_list f as (snd ?r)))"
    and f2: "list_all (F (fst (snd (copy_list f as (snd ?r))))) (fst (copy_list f as (snd ?r)))"
    by simp_all
  have g: "F (fst (snd (copy_list f bs sm'))) x" if "F (fst sm') x" for bs sm' x
    using that by (induction bs arbitrary: sm') (simp_all add: Let_def grows)
  from f1 have "F (fst (snd (copy_list f as (snd ?r)))) (fst ?r)" by (rule g)
  with i2 f2 show ?case by (simp add: Let_def)
qed

lemma copy_list_length: "length (fst (copy_list f as sm)) = length as"
  by (induction as arbitrary: sm) (simp_all add: Let_def)

lemma copy_list_edge_cells:
  "node_cells (fst (snd (copy_list copy_edge as sm))) = node_cells (fst sm)"
  by (induction as arbitrary: sm) (simp_all add: Let_def copy_edge_cells)

lemma deepcopy_fresh:
  "store_extends s (snd (deepcopy s g)) \<and> copies_fresh s (snd (deepcopy s g)) \<and>
   list_all (fresh_in (node_cells s) (node_cells (snd (deepcopy s g)))) (gobj_nodes (fst (deepcopy s g))) \<and>
   list_all (fresh_in (edge_cells s) (edge_cells (snd (deepcopy s g)))) (gobj_edges (fst (deepcopy s g)))"
proof -
  let ?m0 = "\<lparr>node_memo = [], dict_memo = [], edge_memo = []\<rparr>"
  let ?ns = "copy_list copy_node (gobj_nodes g) (s, ?m0)"
  let ?es = "copy_list copy_edge (gobj_edges g) (snd ?ns)"
  have n: "copy_inv s (snd ?ns) \<and>
           list_all (\<lambda>x. fresh_in (node_cells s) (node_cells (fst (snd ?ns))) x) (fst ?ns)"
    by (rule copy_list_inv[where F = "\<lambda>st x. fresh_in (node_cells s) (node_cells st) x"])
       (simp_all add: copy_node_inv copy_node_grows copy_inv_init)
  then have i1: "copy_inv s (snd ?ns)" by simp
  have e: "copy_inv s (snd ?es) \<and>
           list_all (\<lambda>x. fresh_in (edge_cells s) (edge_cells (fst (snd ?es))) x) (fst ?es)"
    by (rule copy_list_inv[where F = "\<lambda>st x. fresh_in (edge_cells s) (edge_cells st) x"])
       (simp_all add: copy_edge_inv copy_edge_grows i1)
  have same: "node_cells (fst (snd ?es)) = node_cells (fst (snd ?ns))"
    by (rule copy_list_edge_cells)
  from n e same show ?thesis
    by (simp add: deepcopy_def Let_def copy_inv_def)
qed

lemma deepcopy_lengths:
  "length (gobj_nodes (fst (deepcopy s g))) = length (gobj_nodes g)"
  "length (gobj_edges (fst (deepcopy s g))) = length (gobj_edges g)"
  by (simp_all add: deepcopy_def Let_def copy_list_length)

lemma apply_to_nodes_cells:
  "node_cells (apply_to_nodes sg as s) = node_cells s"
  "edge_cells (apply_to_nodes sg as s) = edge_cells s"
  "length (dict_cells (apply_to_nodes sg as s)) = length (dict_cells s)"
  by (induction as arbitrary: s) (simp_all add: Let_def)

lemma copies_fresh_cong:
  "copies_fresh s0 s \<Longrightarrow> node_cells s' = node_cells s \<Longrightarrow>
   length (dict_cells s') = length (dict_cells s) \<Longrightarrow> copies_fresh s0 s'"
  by (simp add: copies_fresh_def fresh_in_def)

lemma apply_to_nodes_extends:
  "store_extends s0 s \<Longrightarrow> copies_fresh s0 s \<Longrightarrow>
   list_all (fresh_in (node_cells s0) (node_cells s)) as \<Longrightarrow>
   store_extends s0 (apply_to_nodes sg as s)"
proof (induction as arbitrary: s)
  case Nil
  then show ?case by simp
next
  case (Cons a as)
  let ?node = "node_cells s ! a"
  show ?case
  proof (cases "obj_id ?node \<in> set (rs_affected_node_ids sg)")
    case False
    with Cons show ?thesis by (simp add: Let_def)
  next
    case True
    let ?s = "s\<lparr>dict_cells := (dict_cells s)
                   [obj_metadata ?node :=
                      dict_set (dict_set (dict_cells s ! obj_metadata ?node)
                                  ''refactored'' (VBool True))
                        ''refactor_rule'' (VStr (rs_rule_id sg))]\<rparr>"
    from Cons.prems(3) have "fresh_in (node_cells s0) (node_cells s) a" by simp
    with Cons.prems(2) have "fresh_in (dict_cells s0) (dict_cells s) (obj_metadata ?node)"
      by (simp add: copies_fresh_def)
    then have "length (dict_cells s0) \<le> obj_metadata ?node" by (simp add: fresh_in_def)
    with Cons.prems(1) have e: "store_extends s0 ?s" by (simp add: store_extends_def)
    from Cons.prems(2) have c: "copies_fresh s0 ?s" by (rule copies_fresh_cong) simp_all
    from Cons.prems(3) have l: "list_all (fresh_in (node_cells s0) (node_cells ?s)) as" by simp
    from e c l have "store_extends s0 (apply_to_nodes sg as ?s)" by (rule Cons.IH)
    with True show ?thesis by (simp add: Let_def)
  qed
qed

lemma apply_suggestions_projecting:
  assumes "copies_fresh s0 sc"
    and "list_all (fresh_in (node_cells s0) (node_cells sc)) (gobj_nodes pg)"
  shows "projecting s0 sc s \<Longrightarrow>
         projecting s0 sc (foldl (\<lambda>s1 sg. apply_suggestion s1 pg sg) s sgs)"
proof (induction sgs arbitrary: s)
  case Nil
  then show ?case by simp
next
  case (Cons sg sgs)
  from Cons.prems have e: "store_extends s0 s" and n: "node_cells s = node_cells sc"
    and l: "length (dict_cells s) = length (dict_cells sc)" and ed: "edge_cells s = edge_cells sc"
    by (simp_all add: projecting_def)
  from assms(1) n l have c: "copies_fresh s0 s" by (rule copies_fresh_cong)
  from assms(2) n have f: "list_all (fresh_in (node_cells s0) (node_cells s)) (gobj_nodes pg)"
    by simp
  from e c f have "store_extends s0 (apply_to_nodes sg (gobj_nodes pg) s)"
    by (rule apply_to_nodes_extends)
  with n l ed have "projecting s0 sc (apply_suggestion s pg sg)"
    by (simp add: projecting_def apply_suggestion_def apply_to_nodes_cells)
  then show ?case using Cons.IH by simp
qed

lemma project_projecting:
  "projecting s (snd (deepcopy s g)) (snd (project s g p)) \<and> fst (project s g p) = fst (deepcopy s g)"
proof -
  let ?c = "deepcopy s g"
  from deepcopy_fresh[of s g] have d: "store_extends s (snd ?c)" "copies_fresh s (snd ?c)"
    "list_all (fresh_in (node_cells s) (node_cells (snd ?c))) (gobj_nodes (fst ?c))"
    by simp_all
  from d(1) have "projecting s (snd ?c) (snd ?c)" by (simp add: projecting_def)
  with d(2,3) have "projecting s (snd ?c)
      (foldl (\<lambda>s1 sg. apply_suggestion s1 (fst ?c) sg) (snd ?c) (suggestions p))"
    by (rule apply_suggestions_projecting)
  then show ?thesis by (simp add: project_def Let_def)
qed

lemma graph_value_extends:
  assumes "store_extends s s'" and "graph_ok s g"
  shows "graph_value s' g = graph_value s g"
proof -
  from assms(1) have t: "take (length (node_cells s)) (node_cells s') = node_cells s"
    "take (length (dict_cells s)) (dict_cells s') = dict_cells s"
    "take (length (edge_cells s)) (edge_cells s') = edge_cells s"
    by (simp_all add: store_extends_def)
  have n: "node_cells s' ! a = node_cells s ! a" if "a < length (node_cells s)" for a
    using nth_take[OF that, of "node_cells s'"] t(1) by simp
  have d: "dict_cells s' ! a = dict_cells s ! a" if "a < length (dict_cells s)" for a
    using nth_take[OF that, of "dict_cells s'"] t(2) by simp
  have e: "edge_cells s' ! a = edge_cells s ! a" if "a < length (edge_cells s)" for a
    using nth_take[OF that, of "edge_cells s'"] t(3) by simp
  from assms(2) have "map (node_value s') (gobj_nodes g) = map (node_value s) (gobj_nodes g)"
    by (auto simp: graph_ok_def list_all_iff node_value_def Let_def n d)
  moreover from assms(2)
  have "map (\<lambda>a. edge_cells s' ! a) (gobj_edges g) = map (\<lambda>a. edge_cells s ! a) (gobj_edges g)"
    by (auto simp: graph_ok_def list_all_iff e)
  ultimately show ?thesis by (simp add: graph_value_def)
qed

text \<open>
  C5. \<open>simulate\<close> never mutates the input graph. The store it leaves extends the store it
  was given: every node, dictionary and edge cell that was there is there unchanged. The
  projected graph, to which the annotations \<open>refactored\<close> and \<open>refactor_rule\<close> are applied,
  is made of fresh cells only: its nodes, the metadata dictionaries its nodes refer to, and
  its edges are none of the cells of the store given, so it shares no node, edge or
  metadata mapping with the original. Hence the graph the original stands for, its nodes,
  its edges and the metadata of each node, is the same after the call as before.
\<close>

theorem simulate_never_mutates_graph:
  "store_extends s (fst (simulate cs s g fs p)) \<and>
   fst (simulate cs s g fs p) = snd (project s g p) \<and>
   list_all (\<lambda>a. fresh_in (node_cells s) (node_cells (snd (project s g p))) a \<and>
                  fresh_in (dict_cells s) (dict_cells (snd (project s g p)))
                    (obj_metadata (node_cells (snd (project s g p)) ! a)))
     (gobj_nodes (fst (project s g p))) \<and>
   list_all (fresh_in (edge_cells s) (edge_cells (snd (project s g p))))
     (gobj_edges (fst (project s g p))) \<and>
   (graph_ok s g \<longrightarrow> graph_value (fst (simulate cs s g fs p)) g = graph_value s g)"
proof -
  let ?c = "deepcopy s g" and ?p = "project s g p"
  have st: "fst (simulate cs s g fs p) = snd ?p" by (simp add: simulate_def Let_def)
  from project_projecting[of s g p] have pr: "projecting s (snd ?c) (snd ?p)"
    and pg: "fst ?p = fst ?c" by simp_all
  from pr have ext: "store_extends s (snd ?p)" and n: "node_cells (snd ?p) = node_cells (snd ?c)"
    and e: "edge_cells (snd ?p) = edge_cells (snd ?c)"
    and l: "length (dict_cells (snd ?p)) = length (dict_cells (snd ?c))"
    by (simp_all add: projecting_def)
  from deepcopy_fresh[of s g] have cf0: "copies_fresh s (snd ?c)"
    and fn: "list_all (fresh_in (node_cells s) (node_cells (snd ?c))) (gobj_nodes (fst ?c))"
    and fe: "list_all (fresh_in (edge_cells s) (edge_cells (snd ?c))) (gobj_edges (fst ?c))"
    by simp_all
  from cf0 n l have cf: "copies_fresh s (snd ?p)" by (rule copies_fresh_cong)
  from fn cf have nodes: "list_all (\<lambda>a. fresh_in (node_cells s) (node_cells (snd ?p)) a \<and>
                  fresh_in (dict_cells s) (dict_cells (snd ?p))
                    (obj_metadata (node_cells (snd ?p) ! a))) (gobj_nodes (fst ?p))"
    unfolding pg n by (simp add: list_all_iff copies_fresh_def n)
  from fe have edges: "list_all (fresh_in (edge_cells s) (edge_cells (snd ?p))) (gobj_edges (fst ?p))"
    unfolding pg e .
  have gv: "graph_value (snd ?p) g = graph_value s g" if "graph_ok s g"
    using ext that by (rule graph_value_extends)
  from ext nodes edges gv show ?thesis unfolding st by simp
qed

text \<open>
  In the example the job is affected: the annotations go to the copy of the shared
  dictionary (cell 1), and the original dictionary (cell 0) keeps its one entry.
\<close>

theorem simulate_never_mutates_graph_witness:
  "graph_ok ex_store ex_graph_obj \<and>
   graph_value (fst (simulate ex_scores ex_store ex_graph_obj ex_findings ex_plan)) ex_graph_obj
     = graph_value ex_store ex_graph_obj \<and>
   fst (project ex_store ex_graph_obj ex_plan)
     = ex_graph_obj\<lparr>gobj_nodes := [2, 3, 3], gobj_edges := [1]\<rparr> \<and>
   dict_cells (fst (simulate ex_scores ex_store ex_graph_obj ex_findings ex_plan))
     = [[(''timeout'', VInt 30)],
        [(''timeout'', VInt 30), (''refactored'', VBool True),
         (''refactor_rule'', VStr ''no-timeout'')]]"
proof -
  have ok: "graph_ok ex_store ex_graph_obj"
    by (simp add: graph_ok_def ex_store_def ex_graph_obj_def)
  have pg: "fst (project ex_store ex_graph_obj ex_plan)
     = ex_graph_obj\<lparr>gobj_nodes := [2, 3, 3], gobj_edges := [1]\<rparr>"
    by (simp add: simulate_def project_def deepcopy_def copy_node_def copy_dict_def
        copy_edge_def apply_suggestion_def remaining_findings_def fixed_rule_ids_def Let_def
        ex_store_def ex_graph_obj_def ex_plan_def ex_findings_def ex_scores_def
        ex_edge_def)
  have dc: "dict_cells (fst (simulate ex_scores ex_store ex_graph_obj ex_findings ex_plan))
     = [[(''timeout'', VInt 30)],
        [(''timeout'', VInt 30), (''refactored'', VBool True),
         (''refactor_rule'', VStr ''no-timeout'')]]"
    by (simp add: simulate_def project_def deepcopy_def copy_node_def copy_dict_def
        copy_edge_def apply_suggestion_def remaining_findings_def fixed_rule_ids_def Let_def
        ex_store_def ex_graph_obj_def ex_plan_def ex_findings_def ex_scores_def
        ex_edge_def)
  from simulate_never_mutates_graph [of ex_store ex_scores ex_graph_obj ex_findings ex_plan] ok
  have "graph_value (fst (simulate ex_scores ex_store ex_graph_obj ex_findings ex_plan)) ex_graph_obj
     = graph_value ex_store ex_graph_obj" by blast
  with ok pg dc show ?thesis by blast
qed

text \<open>
  C6. The result of \<open>simulate\<close> has \<open>projected_node_count\<close> equal to the number of nodes
  of the graph and \<open>projected_edge_count\<close> equal to the number of its edges, which are
  the counts of the projected graph: the simulation changes neither.
\<close>

theorem simulate_conserves_counts:
  "projected_node_count (snd (simulate cs s g fs p)) = int (length (nodes (graph_value s g))) \<and>
   projected_edge_count (snd (simulate cs s g fs p)) = int (length (edges (graph_value s g))) \<and>
   length (nodes (graph_value (fst (simulate cs s g fs p)) (fst (project s g p))))
     = length (nodes (graph_value s g)) \<and>
   length (edges (graph_value (fst (simulate cs s g fs p)) (fst (project s g p))))
     = length (edges (graph_value s g))"
proof -
  have pg: "fst (project s g p) = fst (deepcopy s g)" by (simp add: project_def Let_def)
  show ?thesis
    by (simp add: simulate_def Let_def pg deepcopy_lengths graph_value_def)
qed

theorem simulate_conserves_counts_witness:
  "projected_node_count (snd (simulate ex_scores ex_store ex_graph_obj ex_findings ex_plan)) = 3 \<and>
   projected_edge_count (snd (simulate ex_scores ex_store ex_graph_obj ex_findings ex_plan)) = 1 \<and>
   length (nodes (graph_value ex_store ex_graph_obj)) = 3 \<and>
   length (edges (graph_value ex_store ex_graph_obj)) = 1"
  using simulate_conserves_counts [of ex_scores ex_store ex_graph_obj ex_findings ex_plan]
  by (simp add: graph_value_def ex_graph_obj_def)

lemma length_filter_compl:
  "int (length xs) - int (length (filter (\<lambda>x. \<not> P x) xs)) = int (length (filter P xs))"
  using sum_length_filter_compl[of P xs] by simp

text \<open>
  C7. \<open>findings_removed\<close> is the number of findings whose \<open>rule_id\<close> is the rule id of a
  suggestion of the plan, and \<open>findings_remaining\<close> is the number of the other findings,
  which are the findings kept, in their order. Only the rule id counts: replacing the
  affected node ids of the findings by any others changes neither number.
\<close>

theorem simulate_counts_findings_by_rule_id:
  "findings_removed (snd (simulate cs s g fs p))
     = int (length (filter (\<lambda>f. rule_id f \<in> rs_rule_id ` set (suggestions p)) fs)) \<and>
   findings_remaining (snd (simulate cs s g fs p)) = int (length (remaining_findings p fs)) \<and>
   remaining_findings p fs = filter (\<lambda>f. rule_id f \<notin> rs_rule_id ` set (suggestions p)) fs \<and>
   findings_removed (snd (simulate cs s g (map (\<lambda>f. f\<lparr>affected_node_ids := ids f\<rparr>) fs) p))
     = findings_removed (snd (simulate cs s g fs p)) \<and>
   findings_remaining (snd (simulate cs s g (map (\<lambda>f. f\<lparr>affected_node_ids := ids f\<rparr>) fs) p))
     = findings_remaining (snd (simulate cs s g fs p))"
proof -
  let ?P = "\<lambda>f. rule_id f \<in> rs_rule_id ` set (suggestions p)"
  have rem: "remaining_findings p xs = filter (\<lambda>f. \<not> ?P f) xs" for xs
    by (simp add: remaining_findings_def fixed_rule_ids_def)
  have removed: "findings_removed (snd (simulate cs s g xs p)) = int (length (filter ?P xs))" for xs
    by (simp add: simulate_def Let_def rem length_filter_compl)
  have remaining: "findings_remaining (snd (simulate cs s g xs p))
      = int (length (filter (\<lambda>f. \<not> ?P f) xs))" for xs
    by (simp add: simulate_def Let_def rem)
  have m: "length (filter Q (map (\<lambda>f. f\<lparr>affected_node_ids := ids f\<rparr>) fs))
      = length (filter (\<lambda>f. Q (f\<lparr>affected_node_ids := ids f\<rparr>)) fs)" for Q
    by (simp add: filter_map comp_def)
  show ?thesis
    unfolding removed remaining rem m by simp
qed

theorem simulate_counts_findings_by_rule_id_witness:
  "findings_removed (snd (simulate ex_scores ex_store ex_graph_obj ex_findings ex_plan)) = 1 \<and>
   findings_remaining (snd (simulate ex_scores ex_store ex_graph_obj ex_findings ex_plan)) = 1 \<and>
   remaining_findings ex_plan ex_findings
     = [\<lparr>rule_id = ''unpinned-images'', affected_node_ids = [''n2'']\<rparr>] \<and>
   findings_removed (snd (simulate ex_scores ex_store ex_graph_obj
     (map (\<lambda>f. f\<lparr>affected_node_ids := []\<rparr>) ex_findings) ex_plan)) = 1"
  using simulate_counts_findings_by_rule_id
    [of ex_scores ex_store ex_graph_obj ex_findings ex_plan "\<lambda>f. []"]
  by (simp add: ex_findings_def ex_plan_def)

end
